theory Spec2Isabelle
  imports Complex_Main "HOL-Library.AList" "HOL-Library.Char_ord" "HOL-Library.List_Lexorder"
    "HOL-Library.Product_Lexorder"
begin

section \<open>Python values and string helpers\<close>

text \<open>
  The program works on JSON documents read by \<^verbatim>\<open>json.loads\<close>: \<^verbatim>\<open>None\<close>, booleans, integers,
  floats, strings, lists and dictionaries with string keys. A dictionary is an association
  list in insertion order. Floats are read as exact reals: rounding, infinities and NaN are
  outside the model. Strings are ASCII-modelled: \<^verbatim>\<open>lower\<close>, \<^verbatim>\<open>upper\<close> and \<^verbatim>\<open>strip\<close> act on the
  ASCII letters and the ASCII white space only.
\<close>

datatype pyval =
    PNone
  | PBool bool
  | PInt int
  | PFloat real
  | PStr string
  | PList "pyval list"
  | PDict "(string \<times> pyval) list"

datatype py_error = KeyError | ValueError | TypeError | AttributeError | IndexError

definition lower_char :: "char \<Rightarrow> char" where
  "lower_char c =
     (if CHR ''A'' \<le> c \<and> c \<le> CHR ''Z'' then char_of (of_char c + (32 :: nat)) else c)"

definition upper_char :: "char \<Rightarrow> char" where
  "upper_char c =
     (if CHR ''a'' \<le> c \<and> c \<le> CHR ''z'' then char_of (of_char c - (32 :: nat)) else c)"

definition lower :: "string \<Rightarrow> string" where
  "lower s = map lower_char s"

definition upper :: "string \<Rightarrow> string" where
  "upper s = map upper_char s"

definition is_space :: "char \<Rightarrow> bool" where
  "is_space c = ((9 :: nat) \<le> of_char c \<and> of_char c \<le> (13 :: nat)
     \<or> (28 :: nat) \<le> of_char c \<and> of_char c \<le> (32 :: nat))"

definition strip :: "string \<Rightarrow> string" where
  "strip s = rev (dropWhile is_space (rev (dropWhile is_space s)))"

text \<open>Truthiness, \<^verbatim>\<open>a or b\<close>, and the string methods on a value that may not be a string.\<close>

fun truthy :: "pyval \<Rightarrow> bool" where
  "truthy PNone = False"
| "truthy (PBool b) = b"
| "truthy (PInt i) = (i \<noteq> 0)"
| "truthy (PFloat r) = (r \<noteq> 0)"
| "truthy (PStr s) = (s \<noteq> [])"
| "truthy (PList xs) = (xs \<noteq> [])"
| "truthy (PDict kvs) = (kvs \<noteq> [])"

definition py_or :: "pyval \<Rightarrow> pyval \<Rightarrow> pyval" where
  "py_or a b = (if truthy a then a else b)"

fun py_strip :: "pyval \<Rightarrow> py_error + string" where
  "py_strip (PStr s) = Inr (strip s)"
| "py_strip _ = Inl AttributeError"

section \<open>Key normalisation\<close>

text \<open>
  \<^verbatim>\<open>{str(k).lower(): normalize_keys(v) for k, v in obj.items()}\<close>: the items are stored one
  after the other, a later item replacing the value of an equal key in place.
\<close>

definition dict_of_items :: "(string \<times> 'v) list \<Rightarrow> (string \<times> 'v) list" where
  "dict_of_items items = foldl (\<lambda>d kv. AList.update (fst kv) (snd kv) d) [] items"

fun normalize_keys :: "pyval \<Rightarrow> pyval" where
  "normalize_keys (PDict kvs) =
     PDict (dict_of_items (map (\<lambda>kv. (lower (fst kv), normalize_keys (snd kv))) kvs))"
| "normalize_keys (PList xs) = PList (map normalize_keys xs)"
| "normalize_keys v = v"

section \<open>Order normalisation\<close>

text \<open>
  The order record that \<^verbatim>\<open>normalize_orders\<close> builds: a dictionary with exactly these seven
  keys, every value a stripped string but \<^verbatim>\<open>weight\<close>, which is passed through as it came.
  \<^verbatim>\<open>dedup\<close>, \<^verbatim>\<open>plan_assignments\<close> and \<^verbatim>\<open>reconcile\<close> read such records; their keys are lower
  case already, so \<^verbatim>\<open>normalize_keys\<close> leaves them as they are. A key that a caller leaves
  out reads as the blank string through \<^verbatim>\<open>o.get(k) or ""\<close>.
\<close>

record order =
  orderid :: string
  city :: string
  paymenttype :: string
  producttype :: string
  weight :: pyval
  deadline :: string
  address :: string

text \<open>\<^verbatim>\<open>d.get(k)\<close> and \<^verbatim>\<open>d.get(k, default)\<close> on the items of a dictionary.\<close>

definition dict_get :: "(string \<times> pyval) list \<Rightarrow> string \<Rightarrow> pyval" where
  "dict_get kvs k = (case map_of kvs k of None \<Rightarrow> PNone | Some v \<Rightarrow> v)"

definition dict_get_default :: "(string \<times> pyval) list \<Rightarrow> string \<Rightarrow> pyval \<Rightarrow> pyval" where
  "dict_get_default kvs k d = (case map_of kvs k of None \<Rightarrow> d | Some v \<Rightarrow> v)"

definition py_bind :: "py_error + 'a \<Rightarrow> ('a \<Rightarrow> py_error + 'b) \<Rightarrow> py_error + 'b" where
  "py_bind m f = (case m of Inl e \<Rightarrow> Inl e | Inr x \<Rightarrow> f x)"

text \<open>
  The body of the loop of \<^verbatim>\<open>normalize_orders\<close>. Only a dictionary has \<^verbatim>\<open>get\<close>; \<^verbatim>\<open>strip\<close> on a
  value that is not a string raises \<^verbatim>\<open>AttributeError\<close>.
\<close>

fun normalize_order :: "(string \<Rightarrow> string option) \<Rightarrow> pyval \<Rightarrow> py_error + order" where
  "normalize_order zones_map (PDict ordr) =
     py_bind (py_strip (py_or (py_or (py_or (dict_get ordr ''orderid'') (dict_get ordr ''order_id''))
                                 (dict_get ordr ''order'')) (PStr ''''))) (\<lambda>order_id.
     py_bind (py_strip (py_or (dict_get ordr ''city'') (PStr ''''))) (\<lambda>city_raw.
     py_bind (py_strip (py_or (dict_get ordr ''paymenttype'') (PStr ''''))) (\<lambda>p1.
     py_bind (if p1 \<noteq> [] then Inr p1
              else py_strip (py_or (dict_get ordr ''payment'') (PStr ''''))) (\<lambda>payment_type.
     py_bind (py_strip (py_or (dict_get ordr ''producttype'') (PStr ''''))) (\<lambda>product_type.
     py_bind (py_strip (py_or (dict_get ordr ''deadline'') (PStr ''''))) (\<lambda>deadline'.
     py_bind (py_strip (py_or (dict_get ordr ''address'') (PStr ''''))) (\<lambda>address'.
     Inr \<lparr>orderid = order_id,
          city = (case zones_map (lower city_raw) of None \<Rightarrow> city_raw | Some z \<Rightarrow> z),
          paymenttype = payment_type,
          producttype = product_type,
          weight = dict_get_default ordr ''weight'' (PInt 0),
          deadline = deadline',
          address = address'\<rparr>)))))))"
| "normalize_order zones_map _ = Inl AttributeError"

fun normalize_loop :: "(string \<Rightarrow> string option) \<Rightarrow> pyval list \<Rightarrow> py_error + order list" where
  "normalize_loop zones_map [] = Inr []"
| "normalize_loop zones_map (ordr # os) =
     py_bind (normalize_order zones_map ordr) (\<lambda>n.
     py_bind (normalize_loop zones_map os) (\<lambda>ns. Inr (n # ns)))"

text \<open>
  \<^verbatim>\<open>for o in orders\<close>: a list gives its elements, a dictionary its keys, a string its
  characters; nothing else can be iterated.
\<close>

fun py_iter :: "pyval \<Rightarrow> py_error + pyval list" where
  "py_iter (PList xs) = Inr xs"
| "py_iter (PDict kvs) = Inr (map (\<lambda>kv. PStr (fst kv)) kvs)"
| "py_iter (PStr s) = Inr (map (\<lambda>c. PStr [c]) s)"
| "py_iter _ = Inl TypeError"

definition normalize_orders :: "pyval \<Rightarrow> (string \<Rightarrow> string option) \<Rightarrow> py_error + order list" where
  "normalize_orders orders zones_map =
     py_bind (py_iter (normalize_keys orders)) (normalize_loop zones_map)"

section \<open>De-duplication\<close>

text \<open>
  \<^verbatim>\<open>seen\<close> is the dictionary from identifier to the first order that carried it, in insertion
  order; \<^verbatim>\<open>list(seen.values())\<close> is the cleaned list.
\<close>

fun dedup_loop ::
  "(string \<times> order) list \<Rightarrow> string list \<Rightarrow> order list \<Rightarrow> (string \<times> order) list \<times> string list" where
  "dedup_loop seen warnings [] = (seen, warnings)"
| "dedup_loop seen warnings (ordr # os) =
     (case map_of seen (orderid ordr) of
        None \<Rightarrow> dedup_loop (seen @ [(orderid ordr, ordr)]) warnings os
      | Some kept \<Rightarrow>
          dedup_loop seen
            (if address ordr \<noteq> [] \<and> address kept \<noteq> [] \<and> address ordr \<noteq> address kept
             then warnings @ [''Conflicting address for order '' @ orderid ordr]
             else warnings) os)"

definition dedup :: "order list \<Rightarrow> order list \<times> string list" where
  "dedup orders = (case dedup_loop [] [] orders of (seen, warnings) \<Rightarrow> (map snd seen, warnings))"

section \<open>Planning\<close>

text \<open>
  A courier of the roster after key normalisation, its fields typed as the roster declares
  them; a field that the roster may leave out is an option, read with the default that
  \<^verbatim>\<open>c.get(k, default)\<close> gives it.
\<close>

record courier =
  courierid :: string
  zonescovered :: "string list option"
  acceptscod :: "bool option"
  dailycapacity :: "real option"
  priority :: "int option"
  exclusions :: "string list option"

record assignment =
  orderId :: string
  courierId :: string

record plan =
  assignments :: "assignment list"
  unassigned :: "string list"
  capacity_usage :: "(string \<times> real) list"
  unassigned_reasons :: "(string \<times> string) list"

text \<open>
  \<^verbatim>\<open>float(x)\<close>. What \<^verbatim>\<open>float\<close> makes of a string is the parameter \<open>str_float\<close>
  (\<open>None\<close> where it raises \<^verbatim>\<open>ValueError\<close>), so that every result below holds whatever
  strings it accepts.
\<close>

fun py_float :: "(string \<Rightarrow> real option) \<Rightarrow> pyval \<Rightarrow> py_error + real" where
  "py_float str_float (PBool b) = Inr (if b then 1 else 0)"
| "py_float str_float (PInt i) = Inr (of_int i)"
| "py_float str_float (PFloat r) = Inr r"
| "py_float str_float (PStr s) = (case str_float s of None \<Rightarrow> Inl ValueError | Some r \<Rightarrow> Inr r)"
| "py_float str_float _ = Inl TypeError"

definition zones_covered :: "courier \<Rightarrow> string list" where
  "zones_covered c = (case zonescovered c of None \<Rightarrow> [] | Some zs \<Rightarrow> zs)"

definition accepts_cod :: "courier \<Rightarrow> bool" where
  "accepts_cod c = (case acceptscod c of None \<Rightarrow> False | Some b \<Rightarrow> b)"

definition excluded :: "courier \<Rightarrow> string list" where
  "excluded c = map lower (case exclusions c of None \<Rightarrow> [] | Some es \<Rightarrow> es)"

definition daily_capacity :: "courier \<Rightarrow> real" where
  "daily_capacity c = (case dailycapacity c of None \<Rightarrow> 0 | Some r \<Rightarrow> r)"

definition priority_key :: "courier \<Rightarrow> int" where
  "priority_key c = (case priority c of None \<Rightarrow> 10 ^ 9 | Some p \<Rightarrow> p)"

text \<open>
  \<^verbatim>\<open>capacity_usage[k]\<close>. Every courier identifier is a key from the start of the run on
  (lemma \<open>usage_keys\<close> below), so the branch for a missing key is never taken.
\<close>

definition usage_of :: "(string \<times> real) list \<Rightarrow> string \<Rightarrow> real" where
  "usage_of usage k = (case map_of usage k of None \<Rightarrow> 0 | Some u \<Rightarrow> u)"

definition reject :: "plan \<Rightarrow> string \<Rightarrow> string \<Rightarrow> plan" where
  "reject st oid reason =
     st\<lparr>unassigned := unassigned st @ [oid],
        unassigned_reasons := AList.update oid reason (unassigned_reasons st)\<rparr>"

text \<open>
  The end of the loop body: the assignment is recorded and the weight of the order added to
  the usage of the chosen courier.
\<close>

definition assign :: "plan \<Rightarrow> string \<Rightarrow> real \<Rightarrow> courier \<Rightarrow> plan" where
  "assign st oid w chosen =
     st\<lparr>assignments := assignments st @ [\<lparr>orderId = oid, courierId = courierid chosen\<rparr>],
        capacity_usage :=
          AList.update (courierid chosen) (usage_of (capacity_usage st) (courierid chosen) + w)
            (capacity_usage st)\<rparr>"

text \<open>\<^verbatim>\<open>float(o.get("weight") or 0)\<close>.\<close>

definition order_weight :: "(string \<Rightarrow> real option) \<Rightarrow> order \<Rightarrow> py_error + real" where
  "order_weight str_float ordr = py_float str_float (py_or (weight ordr) (PInt 0))"

text \<open>The body of the loop over the orders.\<close>

definition plan_step ::
  "(string \<Rightarrow> real option) \<Rightarrow> courier list \<Rightarrow> plan \<Rightarrow> order \<Rightarrow> py_error + plan" where
  "plan_step str_float couriers_sorted st ordr =
     (let oid = orderid ordr;
          cty = city ordr;
          payment = lower (paymenttype ordr);
          product = lower (producttype ordr)
      in py_bind (order_weight str_float ordr) (\<lambda>w.
         let in_zone = filter (\<lambda>c. cty \<in> set (zones_covered c)) couriers_sorted in
         if in_zone = [] then Inr (reject st oid ''Zone not covered'')
         else
           let cod_ok = filter (\<lambda>c. payment \<noteq> ''cod'' \<or> accepts_cod c) in_zone in
           if payment = ''cod'' \<and> cod_ok = [] then Inr (reject st oid ''COD not accepted'')
           else
             let excl_ok = filter (\<lambda>c. product \<notin> set (excluded c)) cod_ok in
             if excl_ok = []
             then Inr (reject st oid (''Excluded product type: '' @ producttype ordr))
             else
               let cap_ok =
                     filter (\<lambda>c. usage_of (capacity_usage st) (courierid c) + w
                                  \<le> daily_capacity c) excl_ok in
               if cap_ok = [] then Inr (reject st oid ''Capacity exceeded'')
               else
                 (case sort_key (\<lambda>c. (usage_of (capacity_usage st) (courierid c),
                                        priority_key c)) cap_ok of
                    [] \<Rightarrow> Inl IndexError
                  | chosen # _ \<Rightarrow> Inr (assign st oid w chosen))))"

fun plan_loop ::
  "(string \<Rightarrow> real option) \<Rightarrow> courier list \<Rightarrow> plan \<Rightarrow> order list \<Rightarrow> py_error + plan" where
  "plan_loop str_float couriers_sorted st [] = Inr st"
| "plan_loop str_float couriers_sorted st (ordr # os) =
     py_bind (plan_step str_float couriers_sorted st ordr)
       (\<lambda>st'. plan_loop str_float couriers_sorted st' os)"

definition initial_plan :: "courier list \<Rightarrow> plan" where
  "initial_plan couriers =
     \<lparr>assignments = [], unassigned = [],
      capacity_usage = dict_of_items (map (\<lambda>c. (courierid c, 0)) couriers),
      unassigned_reasons = []\<rparr>"

definition plan_assignments ::
  "(string \<Rightarrow> real option) \<Rightarrow> order list \<Rightarrow> courier list \<Rightarrow> py_error + plan" where
  "plan_assignments str_float orders couriers =
     plan_loop str_float (sort_key priority_key couriers) (initial_plan couriers) orders"

section \<open>Reconciliation\<close>

text \<open>
  A row of the scan log as \<^verbatim>\<open>csv.DictReader\<close> gives it: a dictionary from the column names
  to the cells, both strings. A cell that the row leaves out reads as the blank string
  through \<^verbatim>\<open>row.get(k) or ""\<close>.
\<close>

type_synonym log_row = "(string \<times> string) list"

definition normalize_row :: "log_row \<Rightarrow> log_row" where
  "normalize_row row = dict_of_items (map (\<lambda>kv. (lower (fst kv), snd kv)) row)"

definition row_get :: "log_row \<Rightarrow> string \<Rightarrow> string" where
  "row_get row k = (case map_of row k of None \<Rightarrow> [] | Some s \<Rightarrow> s)"

text \<open>The characters that \<^verbatim>\<open>re.sub(r"[^A-Za-z0-9-]", "", s)\<close> keeps.\<close>

definition id_char :: "char \<Rightarrow> bool" where
  "id_char c = (CHR ''A'' \<le> c \<and> c \<le> CHR ''Z'' \<or> CHR ''a'' \<le> c \<and> c \<le> CHR ''z''
     \<or> CHR ''0'' \<le> c \<and> c \<le> CHR ''9'' \<or> c = CHR ''-'')"

definition scan_oid :: "log_row \<Rightarrow> string" where
  "scan_oid row = filter id_char (strip (upper (row_get row ''orderid'')))"

definition scan_cid :: "log_row \<Rightarrow> string" where
  "scan_cid row = strip (row_get row ''courierid'')"

definition scan_ts :: "log_row \<Rightarrow> string" where
  "scan_ts row = strip (row_get row ''deliveredat'')"

text \<open>
  The known identifiers \<^verbatim>\<open>{o["orderid"] for o in orders_l if o.get("orderid")}\<close>, kept as a
  list without repetition, and the plan \<^verbatim>\<open>{a["orderid"]: a["courierid"] for a in assignments_l}\<close>.
\<close>

definition order_ids :: "order list \<Rightarrow> string list" where
  "order_ids orders = remdups (filter (\<lambda>k. k \<noteq> []) (map orderid orders))"

definition planned_by_order :: "assignment list \<Rightarrow> (string \<times> string) list" where
  "planned_by_order asgs = dict_of_items (map (\<lambda>a. (orderId a, courierId a)) asgs)"

record scans =
  delivered_orders :: "string set"
  unexpected_scans :: "string list"
  misassigned_scans :: "string list"
  late_scans :: "string list"
  duplicate_scans :: "string list"
  seen_scan :: "string set"

record report =
  unexpected :: "string list"
  misassigned :: "string list"
  late :: "string list"
  duplicate :: "string list"
  notDelivered :: "string list"

text \<open>
  The body of the loop over the rows. \<open>strptime\<close> stands for
  \<^verbatim>\<open>datetime.strptime(s, "%Y-%m-%d %H:%M")\<close>, \<open>None\<close> where it raises the \<^verbatim>\<open>ValueError\<close>
  that the loop catches.
\<close>

definition reconcile_row ::
  "(string \<Rightarrow> ('t :: linorder) option) \<Rightarrow> order list \<Rightarrow> (string \<times> string) list \<Rightarrow>
   scans \<Rightarrow> log_row \<Rightarrow> scans" where
  "reconcile_row strptime orders planned st row =
     (let oid = scan_oid row; cid = scan_cid row; ts = scan_ts row in
      if oid = [] then st
      else
        let st1 = (if oid \<notin> set (order_ids orders)
                   then st\<lparr>unexpected_scans := unexpected_scans st @ [oid]\<rparr> else st);
            st2 = (if oid \<in> seen_scan st1
                   then st1\<lparr>duplicate_scans := duplicate_scans st1 @ [oid]\<rparr>
                   else st1\<lparr>seen_scan := insert oid (seen_scan st1)\<rparr>);
            st3 = st2\<lparr>delivered_orders := insert oid (delivered_orders st2)\<rparr>;
            st4 = (case map_of planned oid of
                     None \<Rightarrow> st3
                   | Some planned_cid \<Rightarrow>
                       if planned_cid \<noteq> [] \<and> planned_cid \<noteq> cid
                       then st3\<lparr>misassigned_scans := misassigned_scans st3 @ [oid]\<rparr>
                       else st3)
        in (case find (\<lambda>ordr. orderid ordr = oid) orders of
              None \<Rightarrow> st4
            | Some ordr \<Rightarrow>
                if deadline ordr \<noteq> [] \<and> ts \<noteq> []
                then (case strptime (deadline ordr) of
                        None \<Rightarrow> st4
                      | Some d_deadline \<Rightarrow>
                          (case strptime ts of
                             None \<Rightarrow> st4
                           | Some d_delivered \<Rightarrow>
                               if d_delivered > d_deadline
                               then st4\<lparr>late_scans := late_scans st4 @ [oid]\<rparr>
                               else st4))
                else st4))"

definition no_scans :: scans where
  "no_scans = \<lparr>delivered_orders = {}, unexpected_scans = [], misassigned_scans = [],
                late_scans = [], duplicate_scans = [], seen_scan = {}\<rparr>"

definition scan_all ::
  "(string \<Rightarrow> ('t :: linorder) option) \<Rightarrow> assignment list \<Rightarrow> order list \<Rightarrow> log_row list \<Rightarrow> scans" where
  "scan_all strptime asgs orders log_rows =
     foldl (reconcile_row strptime orders (planned_by_order asgs)) no_scans
       (map normalize_row log_rows)"

definition reconcile ::
  "(string \<Rightarrow> ('t :: linorder) option) \<Rightarrow> assignment list \<Rightarrow> order list \<Rightarrow> log_row list \<Rightarrow>
   courier list \<Rightarrow> report" where
  "reconcile strptime asgs orders log_rows couriers =
     (let st = scan_all strptime asgs orders log_rows in
      \<lparr>unexpected = sort (remdups (unexpected_scans st)),
       misassigned = sort (remdups (misassigned_scans st)),
       late = sort (remdups (late_scans st)),
       duplicate = sort (remdups (duplicate_scans st)),
       notDelivered = sort (filter (\<lambda>oid. oid \<notin> delivered_orders st) (order_ids orders))\<rparr>)"

section \<open>The whole run\<close>

text \<open>\<^verbatim>\<open>main\<close> between reading its four inputs and writing its three outputs.\<close>

definition main_core ::
  "(string \<Rightarrow> real option) \<Rightarrow> (string \<Rightarrow> ('t :: linorder) option) \<Rightarrow> pyval \<Rightarrow> courier list \<Rightarrow>
   (string \<Rightarrow> string option) \<Rightarrow> log_row list \<Rightarrow>
   py_error + ((order list \<times> string list) \<times> plan \<times> report)" where
  "main_core str_float strptime orders_raw couriers_raw zones_map log_rows =
     py_bind (normalize_orders orders_raw zones_map) (\<lambda>orders_norm.
       case dedup orders_norm of (orders_clean, warnings) \<Rightarrow>
         py_bind (plan_assignments str_float orders_clean couriers_raw) (\<lambda>p.
           Inr ((orders_clean, warnings), p,
                reconcile strptime (assignments p) orders_clean log_rows couriers_raw)))"

section \<open>The specification's wording, for comparison with the code\<close>

text \<open>
  The identifier of an order as the specification words it: the first non-blank value among
  the keys \<^verbatim>\<open>orderid\<close>, \<^verbatim>\<open>order_id\<close>, \<^verbatim>\<open>order\<close> of the record with lower-case keys, trimmed;
  blank when none of them holds one. A value is blank when trimming leaves nothing of it, as
  for the payment type, which the specification words the same way. A key that is absent or
  holds \<^verbatim>\<open>null\<close> holds no value.
\<close>

definition str_field :: "(string \<times> pyval) list \<Rightarrow> string \<Rightarrow> string option" where
  "str_field kvs k = (case map_of kvs k of Some (PStr s) \<Rightarrow> Some s | _ \<Rightarrow> None)"

definition spec_identifier :: "pyval \<Rightarrow> string" where
  "spec_identifier r =
     (case r of
        PDict kvs \<Rightarrow>
          (case filter (\<lambda>s. strip s \<noteq> [])
                  (List.map_filter (str_field kvs) [''orderid'', ''order_id'', ''order'']) of
             [] \<Rightarrow> []
           | s # _ \<Rightarrow> strip s)
      | _ \<Rightarrow> [])"

text \<open>The identifier fields of a record hold strings where they hold anything.\<close>

definition str_or_absent :: "(string \<times> pyval) list \<Rightarrow> string \<Rightarrow> bool" where
  "str_or_absent kvs k =
     (case map_of kvs k of None \<Rightarrow> True | Some PNone \<Rightarrow> True | Some (PStr s) \<Rightarrow> True
      | Some _ \<Rightarrow> False)"

definition id_fields_typed :: "pyval \<Rightarrow> bool" where
  "id_fields_typed r =
     (case r of
        PDict kvs \<Rightarrow> list_all (str_or_absent kvs) [''orderid'', ''order_id'', ''order'']
      | _ \<Rightarrow> False)"

text \<open>No identifier field of a record holds white space only.\<close>

definition not_only_spaces :: "(string \<times> pyval) list \<Rightarrow> string \<Rightarrow> bool" where
  "not_only_spaces kvs k =
     (case str_field kvs k of None \<Rightarrow> True | Some s \<Rightarrow> s = [] \<or> strip s \<noteq> [])"

definition id_fields_plain :: "pyval \<Rightarrow> bool" where
  "id_fields_plain r =
     (case r of
        PDict kvs \<Rightarrow> list_all (not_only_spaces kvs) [''orderid'', ''order_id'', ''order'']
      | _ \<Rightarrow> False)"

text \<open>
  The eligibility chain as the specification words it: four predicates in a fixed order,
  each with its reason; the candidates are filtered through them one after the other, and
  the first predicate that leaves no candidate gives the reason of the rejection.
\<close>

definition zone_ok :: "order \<Rightarrow> courier \<Rightarrow> bool" where
  "zone_ok ordr c = (city ordr \<in> set (zones_covered c))"

definition cod_accepted :: "order \<Rightarrow> courier \<Rightarrow> bool" where
  "cod_accepted ordr c = (lower (paymenttype ordr) = ''cod'' \<longrightarrow> accepts_cod c)"

definition product_ok :: "order \<Rightarrow> courier \<Rightarrow> bool" where
  "product_ok ordr c = (lower (producttype ordr) \<notin> set (excluded c))"

definition capacity_ok :: "(string \<times> real) list \<Rightarrow> real \<Rightarrow> courier \<Rightarrow> bool" where
  "capacity_ok usage w c = (usage_of usage (courierid c) + w \<le> daily_capacity c)"

fun first_empty :: "(('c \<Rightarrow> bool) \<times> string) list \<Rightarrow> 'c list \<Rightarrow> string option" where
  "first_empty [] cands = None"
| "first_empty (pr # chain) cands =
     (if filter (fst pr) cands = [] then Some (snd pr)
      else first_empty chain (filter (fst pr) cands))"

definition eligibility_chain ::
  "(string \<times> real) list \<Rightarrow> real \<Rightarrow> order \<Rightarrow> ((courier \<Rightarrow> bool) \<times> string) list" where
  "eligibility_chain usage w ordr =
     [(zone_ok ordr, ''Zone not covered''),
      (cod_accepted ordr, ''COD not accepted''),
      (product_ok ordr, ''Excluded product type: '' @ producttype ordr),
      (capacity_ok usage w, ''Capacity exceeded'')]"

text \<open>The couriers that survive all four filters.\<close>

definition survivors :: "(string \<times> real) list \<Rightarrow> real \<Rightarrow> order \<Rightarrow> courier list \<Rightarrow> courier list" where
  "survivors usage w ordr couriers =
     filter (\<lambda>c. zone_ok ordr c \<and> cod_accepted ordr c \<and> product_ok ordr c
                 \<and> capacity_ok usage w c) couriers"

section \<open>Key normalisation is idempotent\<close>

lemma lower_char_idem: "lower_char (lower_char c) = lower_char c"
proof (cases "CHR ''A'' \<le> c \<and> c \<le> CHR ''Z''")
  case True
  define n :: nat where "n = of_char c"
  from True have n: "65 \<le> n" "n \<le> 90"
    by (simp_all add: less_eq_char_def n_def)
  then have "(n + 32) mod 256 = n + 32" by simp
  then have "(of_char (char_of (n + 32)) :: nat) = n + 32" by simp
  then have "\<not> char_of (n + 32) \<le> CHR ''Z''"
    using n by (simp add: less_eq_char_def)
  moreover have "lower_char c = char_of (n + 32)"
    using True by (simp add: lower_char_def n_def)
  ultimately show ?thesis by (simp add: lower_char_def)
next
  case False
  then have "lower_char c = c" unfolding lower_char_def by (rule if_not_P)
  then show ?thesis by simp
qed

lemma lower_idem: "lower (lower s) = lower s"
  by (simp add: lower_def lower_char_idem)

lemma update_fresh: "k \<notin> fst ` set al \<Longrightarrow> AList.update k v al = al @ [(k, v)]"
  by (induction al) auto

lemma dict_acc_append:
  "distinct (map fst (acc @ xs)) \<Longrightarrow>
   foldl (\<lambda>d kv. AList.update (fst kv) (snd kv) d) acc xs = acc @ xs"
proof (induction xs arbitrary: acc)
  case Nil
  then show ?case by simp
next
  case (Cons x xs)
  have "fst x \<notin> fst ` set acc" using Cons.prems by auto
  then have u: "AList.update (fst x) (snd x) acc = acc @ [x]"
    using update_fresh[of "fst x" acc "snd x"] by simp
  show ?case using Cons.IH[of "acc @ [x]"] Cons.prems u by simp
qed

lemma dict_of_items_distinct_id: "distinct (map fst xs) \<Longrightarrow> dict_of_items xs = xs"
  using dict_acc_append[of "[]" xs] by (simp add: dict_of_items_def)

lemma dict_acc_distinct:
  "distinct (map fst acc) \<Longrightarrow>
   distinct (map fst (foldl (\<lambda>d kv. AList.update (fst kv) (snd kv) d) acc xs))"
  by (induction xs arbitrary: acc) (auto simp: distinct_update)

lemma dict_of_items_distinct: "distinct (map fst (dict_of_items xs))"
  using dict_acc_distinct[of "[]" xs] by (simp add: dict_of_items_def)

lemma set_update_subset: "set (AList.update k v al) \<subseteq> insert (k, v) (set al)"
  by (induction al) auto

lemma dict_acc_subset:
  "set (foldl (\<lambda>d kv. AList.update (fst kv) (snd kv) d) acc xs) \<subseteq> set acc \<union> set xs"
proof (induction xs arbitrary: acc)
  case Nil
  then show ?case by simp
next
  case (Cons x xs)
  have "set (AList.update (fst x) (snd x) acc) \<subseteq> insert x (set acc)"
    using set_update_subset[of "fst x" "snd x" acc] by simp
  with Cons.IH[of "AList.update (fst x) (snd x) acc"] show ?case by auto
qed

lemma dict_of_items_subset: "set (dict_of_items xs) \<subseteq> set xs"
  using dict_acc_subset[of "[]" xs] by (simp add: dict_of_items_def)

text \<open>
  Claim C9. For every nested structure of dictionaries, lists and scalars, normalising the
  keys twice gives the same structure as normalising them once.
\<close>

theorem normalize_keys_idempotent: "normalize_keys (normalize_keys v) = normalize_keys v"
proof (induction v)
  case (PDict kvs)
  let ?f = "\<lambda>kv. (lower (fst kv), normalize_keys (snd kv))"
  let ?D = "dict_of_items (map ?f kvs)"
  have stable: "?f e = e" if e: "e \<in> set ?D" for e
  proof -
    from e dict_of_items_subset have "e \<in> set (map ?f kvs)" by blast
    then obtain kv where kv: "kv \<in> set kvs" and e: "e = ?f kv" by auto
    have "normalize_keys (normalize_keys (snd kv)) = normalize_keys (snd kv)"
      using PDict kv by (cases kv) auto
    then show ?thesis using e by (simp add: lower_idem)
  qed
  then have "map ?f ?D = ?D" by (rule map_idI)
  moreover have "dict_of_items ?D = ?D"
    by (rule dict_of_items_distinct_id) (rule dict_of_items_distinct)
  ultimately have "dict_of_items (map ?f ?D) = ?D" by (simp only:)
  then show ?case by (simp only: normalize_keys.simps)
next
  case (PList xs)
  then show ?case by simp
qed simp_all

section \<open>The normalised identifier\<close>

lemma py_bind_Inr_iff: "py_bind m f = Inr y \<longleftrightarrow> (\<exists>x. m = Inr x \<and> f x = Inr y)"
  by (cases m) (simp_all add: py_bind_def)

lemma py_or_assoc: "py_or (py_or a b) c = py_or a (py_or b c)"
  by (simp add: py_or_def)

lemma strip_Nil: "strip [] = []"
  by (simp add: strip_def)

lemma typed_field_or:
  assumes "str_or_absent kvs k" and "not_only_spaces kvs k"
  shows "py_strip (py_or (dict_get kvs k) rest) =
    (case str_field kvs k of
       None \<Rightarrow> py_strip rest
     | Some s \<Rightarrow> if strip s \<noteq> [] then Inr (strip s) else py_strip rest)"
proof (cases "map_of kvs k")
  case None
  then show ?thesis by (simp add: str_field_def dict_get_def py_or_def)
next
  case (Some v)
  show ?thesis
  proof (cases v)
    case (PStr s)
    with Some have f: "str_field kvs k = Some s" and g: "dict_get kvs k = PStr s"
      by (simp_all add: str_field_def dict_get_def)
    from assms(2) f have "s = [] \<or> strip s \<noteq> []" by (simp add: not_only_spaces_def)
    then have "(s \<noteq> []) = (strip s \<noteq> [])" using strip_Nil by auto
    then show ?thesis unfolding f g by (simp add: py_or_def)
  qed (use Some assms(1) in \<open>simp_all add: str_or_absent_def str_field_def dict_get_def py_or_def\<close>)
qed

lemma map_filter_Cons:
  "List.map_filter f (x # xs) =
     (case f x of None \<Rightarrow> List.map_filter f xs | Some y \<Rightarrow> y # List.map_filter f xs)"
  by (simp add: List.map_filter_simps)

lemma id_expr_typed:
  assumes "list_all (str_or_absent kvs) [''orderid'', ''order_id'', ''order'']"
    and "list_all (not_only_spaces kvs) [''orderid'', ''order_id'', ''order'']"
  shows "py_strip (py_or (py_or (py_or (dict_get kvs ''orderid'') (dict_get kvs ''order_id''))
            (dict_get kvs ''order'')) (PStr [])) = Inr (spec_identifier (PDict kvs))"
proof -
  from assms(1) have a: "str_or_absent kvs ''orderid''" and b: "str_or_absent kvs ''order_id''"
    and c: "str_or_absent kvs ''order''" by simp_all
  from assms(2) have a': "not_only_spaces kvs ''orderid''"
    and b': "not_only_spaces kvs ''order_id''"
    and c': "not_only_spaces kvs ''order''" by simp_all
  have e: "py_strip (PStr []) = Inr []" by (simp add: strip_def)
  show ?thesis
    unfolding py_or_assoc typed_field_or[OF a a'] typed_field_or[OF b b']
      typed_field_or[OF c c'] e
    by (simp add: spec_identifier_def map_filter_Cons List.map_filter_simps(2)
          split: option.splits)
qed

lemma normalize_order_id:
  assumes "normalize_order zm r = Inr n" and "id_fields_typed r" and "id_fields_plain r"
  shows "orderid n = spec_identifier r"
proof -
  from assms(2) obtain kvs where r: "r = PDict kvs"
    and t: "list_all (str_or_absent kvs) [''orderid'', ''order_id'', ''order'']"
    by (cases r) (simp_all add: id_fields_typed_def)
  from assms(3) r have p: "list_all (not_only_spaces kvs) [''orderid'', ''order_id'', ''order'']"
    by (simp add: id_fields_plain_def)
  from assms(1) show ?thesis
    unfolding r normalize_order.simps id_expr_typed[OF t p]
    by (auto simp: py_bind_Inr_iff)
qed

lemma normalize_loop_ids:
  assumes "normalize_loop zm rs = Inr ns"
    and "\<forall>r\<in>set rs. id_fields_typed r \<and> id_fields_plain r"
  shows "map orderid ns = map spec_identifier rs"
  using assms
proof (induction rs arbitrary: ns)
  case Nil
  then show ?case by simp
next
  case (Cons r rs)
  from Cons.prems(1) obtain n ns' where n: "normalize_order zm r = Inr n"
    and ns': "normalize_loop zm rs = Inr ns'" and ns: "ns = n # ns'"
    by (auto simp: py_bind_Inr_iff)
  have "orderid n = spec_identifier r"
    using normalize_order_id[OF n] Cons.prems(2) by simp
  moreover have "map orderid ns' = map spec_identifier rs"
    using Cons.IH[OF ns'] Cons.prems(2) by simp
  ultimately show ?case using ns by simp
qed

text \<open>
  Where no identifier field holds white space only, the code gives the identifier of the
  specification: the first non-blank value among the three keys, trimmed, blank when none
  holds one.
\<close>

lemma normalize_orders_identifier_plain:
  assumes "normalize_orders (PList raw) zones_map = Inr ns"
    and "\<forall>r\<in>set raw. id_fields_typed (normalize_keys r) \<and> id_fields_plain (normalize_keys r)"
  shows "map orderid ns = map (\<lambda>r. spec_identifier (normalize_keys r)) raw"
proof -
  from assms(1) have "normalize_loop zones_map (map normalize_keys raw) = Inr ns"
    by (simp add: normalize_orders_def py_bind_def)
  from normalize_loop_ids[OF this] assms(2) show ?thesis by (simp add: comp_def)
qed

text \<open>
  Claim C8 fails on the code. The line of the identifier tests the values before it trims
  the one it took, where the line of the payment type trims each value before it tests it:
  a first key that holds white space only is taken, and the normalised identifier is blank
  although the next key holds the identifier \<^verbatim>\<open>X\<close>, which is the first non-blank value.
\<close>

theorem normalize_orders_identifier_whitespace:
  "normalize_orders (PList [PDict [(''orderId'', PStr ''  ''), (''order_id'', PStr ''X'')]])
     (map_of [])
   = Inr [\<lparr>orderid = [], city = [], paymenttype = [], producttype = [],
            weight = PInt 0, deadline = [], address = []\<rparr>]
   \<and> spec_identifier
       (normalize_keys (PDict [(''orderId'', PStr ''  ''), (''order_id'', PStr ''X'')]))
     = ''X''
   \<and> normalize_orders
       (PList [PDict [(''orderId'', PStr ''A1''), (''paymentType'', PStr ''  ''),
                      (''payment'', PStr ''COD'')]])
       (map_of [])
     = Inr [\<lparr>orderid = ''A1'', city = [], paymenttype = ''COD'', producttype = [],
              weight = PInt 0, deadline = [], address = []\<rparr>]"
  by code_simp

section \<open>De-duplication keeps the first order of every identifier\<close>

lemma seen_filter_empty:
  "\<forall>(k', x)\<in>set seen. orderid x = k' \<Longrightarrow> k \<notin> fst ` set seen \<Longrightarrow>
   filter (\<lambda>x. orderid x = k) (map snd seen) = []"
  by (induction seen) auto

lemma dedup_loop_filter:
  assumes "\<forall>(k', x)\<in>set seen. orderid x = k'"
  shows "filter (\<lambda>x. orderid x = k) (map snd (fst (dedup_loop seen w os))) =
    (if k \<in> fst ` set seen then filter (\<lambda>x. orderid x = k) (map snd seen)
     else take 1 (filter (\<lambda>x. orderid x = k) os))"
  using assms
proof (induction os arbitrary: seen w)
  case Nil
  then show ?case using seen_filter_empty[of seen k] by simp
next
  case (Cons a os)
  show ?case
  proof (cases "map_of seen (orderid a)")
    case None
    then have fresh: "orderid a \<notin> fst ` set seen" by (simp add: map_of_eq_None_iff)
    let ?seen = "seen @ [(orderid a, a)]"
    have inv: "\<forall>(k', x)\<in>set ?seen. orderid x = k'" using Cons.prems by auto
    have step: "dedup_loop seen w (a # os) = dedup_loop ?seen w os" using None by simp
    have none: "filter (\<lambda>x. orderid x = k) (map snd seen) = []" if "k \<notin> fst ` set seen"
      using that Cons.prems by (rule seen_filter_empty[rotated])
    show ?thesis
    proof (cases "k \<in> fst ` set seen")
      case True
      then have "k \<noteq> orderid a" using fresh by blast
      then show ?thesis using Cons.IH[OF inv, of w] True unfolding step by simp
    next
      case False
      show ?thesis
      proof (cases "k = orderid a")
        case True
        have "filter (\<lambda>x. orderid x = k) (map snd (fst (dedup_loop ?seen w os))) =
            filter (\<lambda>x. orderid x = k) (map snd ?seen)"
          using Cons.IH[OF inv, of w] True by simp
        also have "\<dots> = [a]" using none[OF False] True by simp
        finally show ?thesis using True False unfolding step by simp
      next
        case neq: False
        then show ?thesis using Cons.IH[OF inv, of w] False unfolding step by simp
      qed
    qed
  next
    case (Some kept)
    then have inn: "orderid a \<in> fst ` set seen"
      by (metis map_of_eq_None_iff option.distinct(1))
    obtain w' where step: "dedup_loop seen w (a # os) = dedup_loop seen w' os"
      using Some by simp
    show ?thesis using Cons.IH[OF Cons.prems, of w'] inn unfolding step by auto
  qed
qed

lemma dedup_loop_append:
  "dedup_loop seen w (xs @ ys) =
     (case dedup_loop seen w xs of (seen', w') \<Rightarrow> dedup_loop seen' w' ys)"
  by (induction xs arbitrary: seen w) (simp_all split: option.splits)

lemma dedup_loop_seen:
  "map_of (fst (dedup_loop seen w os)) k =
     (case map_of seen k of Some x \<Rightarrow> Some x | None \<Rightarrow> find (\<lambda>x. orderid x = k) os)"
proof (induction os arbitrary: seen w)
  case Nil
  then show ?case by (simp split: option.splits)
next
  case (Cons a os)
  show ?case
  proof (cases "map_of seen (orderid a)")
    case None
    then show ?thesis using Cons.IH[of "seen @ [(orderid a, a)]" w]
      by (auto simp: map_add_def split: option.splits)
  next
    case (Some kept)
    then show ?thesis using Cons.IH[of seen]
      by (auto split: option.splits)
  qed
qed

lemma dedup_loop_warnings_mono: "set w \<subseteq> set (snd (dedup_loop seen w os))"
proof (induction os arbitrary: seen w)
  case Nil
  then show ?case by simp
next
  case (Cons a os)
  show ?case
  proof (cases "map_of seen (orderid a)")
    case None
    then show ?thesis using Cons.IH[of w "seen @ [(orderid a, a)]"] by simp
  next
    case (Some kept)
    let ?w = "if address a \<noteq> [] \<and> address kept \<noteq> [] \<and> address a \<noteq> address kept
              then w @ [''Conflicting address for order '' @ orderid a] else w"
    have "set w \<subseteq> set ?w" by auto
    also have "set ?w \<subseteq> set (snd (dedup_loop seen ?w os))" by (rule Cons.IH)
    finally show ?thesis using Some by simp
  qed
qed

lemma fst_dedup: "fst (dedup os) = map snd (fst (dedup_loop [] [] os))"
  by (simp add: dedup_def case_prod_beta)

lemma snd_dedup: "snd (dedup os) = snd (dedup_loop [] [] os)"
  by (simp add: dedup_def case_prod_beta)

lemma dedup_conflict_warning:
  assumes "find (\<lambda>x. orderid x = orderid b) pre = Some kept"
    and "address b \<noteq> []" and "address kept \<noteq> []" and "address b \<noteq> address kept"
  shows "''Conflicting address for order '' @ orderid b \<in> set (snd (dedup (pre @ b # post)))"
proof -
  obtain seen w where pre: "dedup_loop [] [] pre = (seen, w)" by (cases "dedup_loop [] [] pre")
  have "map_of seen (orderid b) = Some kept"
    using dedup_loop_seen[of "[]" "[]" pre "orderid b"] pre assms(1) by simp
  then have "dedup_loop seen w (b # post) =
      dedup_loop seen (w @ [''Conflicting address for order '' @ orderid b]) post"
    using assms(2-4) by simp
  then have "dedup_loop [] [] (pre @ b # post) =
      dedup_loop seen (w @ [''Conflicting address for order '' @ orderid b]) post"
    using pre by (simp add: dedup_loop_append)
  moreover have "''Conflicting address for order '' @ orderid b
      \<in> set (snd (dedup_loop seen (w @ [''Conflicting address for order '' @ orderid b]) post))"
    using dedup_loop_warnings_mono[of "w @ [''Conflicting address for order '' @ orderid b]" seen post]
    by auto
  ultimately show ?thesis by (simp only: snd_dedup)
qed

text \<open>
  Claim C10. The blank identifier is an identity key like any other: of the orders of the
  input whose identifier is blank, \<^verbatim>\<open>dedup\<close> retains the first and no other; and a later
  blank-identifier order whose address is non-blank and differs from the non-blank address
  of the first one leaves the conflicting-address warning for the blank identifier.
\<close>

theorem dedup_blank_identifier:
  "filter (\<lambda>x. orderid x = []) (fst (dedup os)) = take 1 (filter (\<lambda>x. orderid x = []) os)
   \<and> (\<forall>pre b post kept.
        os = pre @ b # post \<and> orderid b = [] \<and> find (\<lambda>x. orderid x = []) pre = Some kept
        \<and> address b \<noteq> [] \<and> address kept \<noteq> [] \<and> address b \<noteq> address kept
        \<longrightarrow> ''Conflicting address for order '' \<in> set (snd (dedup os)))"
proof (intro conjI allI impI)
  show "filter (\<lambda>x. orderid x = []) (fst (dedup os)) = take 1 (filter (\<lambda>x. orderid x = []) os)"
    using dedup_loop_filter[of "[]" "[]" "[]" os] by (simp add: fst_dedup)
next
  fix pre b post kept
  assume a: "os = pre @ b # post \<and> orderid b = [] \<and> find (\<lambda>x. orderid x = []) pre = Some kept
        \<and> address b \<noteq> [] \<and> address kept \<noteq> [] \<and> address b \<noteq> address kept"
  then have "find (\<lambda>x. orderid x = orderid b) pre = Some kept" by simp
  from dedup_conflict_warning[OF this, of post] a
  show "''Conflicting address for order '' \<in> set (snd (dedup os))" by simp
qed

theorem dedup_blank_identifier_witness:
  "filter (\<lambda>x. orderid x = [])
     (fst (dedup
       [\<lparr>orderid = [], city = ''Giza'', paymenttype = ''COD'', producttype = [],
          weight = PInt 1, deadline = [], address = ''1 Main St''\<rparr>,
        \<lparr>orderid = ''A'', city = ''Giza'', paymenttype = ''COD'', producttype = [],
          weight = PInt 1, deadline = [], address = []\<rparr>,
        \<lparr>orderid = [], city = ''Cairo'', paymenttype = [], producttype = [],
          weight = PInt 2, deadline = [], address = ''2 Side Ave''\<rparr>]))
   = [\<lparr>orderid = [], city = ''Giza'', paymenttype = ''COD'', producttype = [],
         weight = PInt 1, deadline = [], address = ''1 Main St''\<rparr>]
   \<and> ''Conflicting address for order '' \<in> set (snd (dedup
       [\<lparr>orderid = [], city = ''Giza'', paymenttype = ''COD'', producttype = [],
          weight = PInt 1, deadline = [], address = ''1 Main St''\<rparr>,
        \<lparr>orderid = ''A'', city = ''Giza'', paymenttype = ''COD'', producttype = [],
          weight = PInt 1, deadline = [], address = []\<rparr>,
        \<lparr>orderid = [], city = ''Cairo'', paymenttype = [], producttype = [],
          weight = PInt 2, deadline = [], address = ''2 Side Ave''\<rparr>]))"
proof -
  let ?b1 = "\<lparr>orderid = [], city = ''Giza'', paymenttype = ''COD'', producttype = [],
          weight = PInt 1, deadline = [], address = ''1 Main St''\<rparr>"
  let ?a = "\<lparr>orderid = ''A'', city = ''Giza'', paymenttype = ''COD'', producttype = [],
          weight = PInt 1, deadline = [], address = []\<rparr>"
  let ?b2 = "\<lparr>orderid = [], city = ''Cairo'', paymenttype = [], producttype = [],
          weight = PInt 2, deadline = [], address = ''2 Side Ave''\<rparr>"
  note t = dedup_blank_identifier[of "[?b1, ?a, ?b2]"]
  from t have "filter (\<lambda>x. orderid x = []) (fst (dedup [?b1, ?a, ?b2])) = [?b1]" by simp
  moreover have "[?b1, ?a, ?b2] = [?b1, ?a] @ ?b2 # [] \<and> orderid ?b2 = []
      \<and> find (\<lambda>x. orderid x = []) [?b1, ?a] = Some ?b1
      \<and> address ?b2 \<noteq> [] \<and> address ?b1 \<noteq> [] \<and> address ?b2 \<noteq> address ?b1" by simp
  with t have "''Conflicting address for order '' \<in> set (snd (dedup [?b1, ?a, ?b2]))" by blast
  ultimately show ?thesis by (rule conjI)
qed

section \<open>The loop body of the planner, by the eligibility chain\<close>

lemma cod_pred_eq:
  "(\<lambda>c. lower (paymenttype ordr) \<noteq> ''cod'' \<or> accepts_cod c) = cod_accepted ordr"
  by (auto simp: cod_accepted_def fun_eq_iff)

lemma zone_pred_eq: "(\<lambda>c. city ordr \<in> set (zones_covered c)) = zone_ok ordr"
  by (simp add: zone_ok_def fun_eq_iff)

lemma product_pred_eq: "(\<lambda>c. lower (producttype ordr) \<notin> set (excluded c)) = product_ok ordr"
  by (simp add: product_ok_def fun_eq_iff)

lemma capacity_pred_eq:
  "(\<lambda>c. usage_of usage (courierid c) + w \<le> daily_capacity c) = capacity_ok usage w"
  by (simp add: capacity_ok_def fun_eq_iff)

lemma survivors_chain:
  "survivors usage w ordr cs =
     filter (capacity_ok usage w) (filter (product_ok ordr)
       (filter (cod_accepted ordr) (filter (zone_ok ordr) cs)))"
  by (simp add: survivors_def conj_commute conj_left_commute)

lemma cod_filter_nonempty:
  assumes "lower (paymenttype ordr) \<noteq> ''cod''" and "zs \<noteq> []"
  shows "filter (cod_accepted ordr) zs \<noteq> []"
proof -
  have "filter (cod_accepted ordr) zs = zs" using assms(1) by (simp add: cod_accepted_def)
  then show ?thesis using assms(2) by simp
qed

lemma plan_step_chain:
  "plan_step pf cs st ordr =
     py_bind (order_weight pf ordr) (\<lambda>w.
       case first_empty (eligibility_chain (capacity_usage st) w ordr) cs of
         Some reason \<Rightarrow> Inr (reject st (orderid ordr) reason)
       | None \<Rightarrow>
           (case sort_key (\<lambda>c. (usage_of (capacity_usage st) (courierid c), priority_key c))
                   (survivors (capacity_usage st) w ordr cs) of
              [] \<Rightarrow> Inl IndexError
            | chosen # _ \<Rightarrow> Inr (assign st (orderid ordr) w chosen)))"
proof (cases "order_weight pf ordr")
  case (Inl e)
  then show ?thesis by (simp add: plan_step_def py_bind_def)
next
  case (Inr w)
  let ?Z = "filter (zone_ok ordr) cs"
  let ?C = "filter (cod_accepted ordr) ?Z"
  let ?E = "filter (product_ok ordr) ?C"
  let ?K = "filter (capacity_ok (capacity_usage st) w) ?E"
  have cod: "(lower (paymenttype ordr) = ''cod'' \<and> ?C = []) = (?C = [])" if "?Z \<noteq> []"
    using cod_filter_nonempty[OF _ that] by blast
  have code: "plan_step pf cs st ordr =
     (if ?Z = [] then Inr (reject st (orderid ordr) ''Zone not covered'')
      else if lower (paymenttype ordr) = ''cod'' \<and> ?C = []
        then Inr (reject st (orderid ordr) ''COD not accepted'')
      else if ?E = []
        then Inr (reject st (orderid ordr) (''Excluded product type: '' @ producttype ordr))
      else if ?K = [] then Inr (reject st (orderid ordr) ''Capacity exceeded'')
      else (case sort_key (\<lambda>c. (usage_of (capacity_usage st) (courierid c), priority_key c)) ?K of
              [] \<Rightarrow> Inl IndexError
            | chosen # _ \<Rightarrow> Inr (assign st (orderid ordr) w chosen)))"
    unfolding plan_step_def Let_def Inr py_bind_def sum.case
      zone_pred_eq cod_pred_eq product_pred_eq capacity_pred_eq ..
  have spec: "first_empty (eligibility_chain (capacity_usage st) w ordr) cs =
     (if ?Z = [] then Some ''Zone not covered''
      else if ?C = [] then Some ''COD not accepted''
      else if ?E = [] then Some (''Excluded product type: '' @ producttype ordr)
      else if ?K = [] then Some ''Capacity exceeded''
      else None)"
    by (simp add: eligibility_chain_def)
  show ?thesis
    unfolding code spec survivors_chain Inr py_bind_def sum.case
    using cod by (simp split: if_splits)
qed

section \<open>Facts about a run of the planner\<close>

lemma plan_loop_append:
  "plan_loop pf cs st (xs @ ys) = py_bind (plan_loop pf cs st xs) (\<lambda>st'. plan_loop pf cs st' ys)"
proof (induction xs arbitrary: st)
  case Nil
  then show ?case by (simp add: py_bind_def)
next
  case (Cons x xs)
  then show ?case by (cases "plan_step pf cs st x") (simp_all add: py_bind_def)
qed

lemma plan_loop_split:
  assumes "plan_loop pf cs st0 (pre @ ordr # post) = Inr fin"
  obtains st st' where "plan_loop pf cs st0 pre = Inr st"
    and "plan_step pf cs st ordr = Inr st'" and "plan_loop pf cs st' post = Inr fin"
  using assms by (auto simp: plan_loop_append py_bind_Inr_iff)

lemma sort_key_head:
  assumes "sort_key f xs = y # ys"
  shows "y \<in> set xs \<and> (\<forall>x\<in>set xs. f y \<le> f x)"
proof -
  have "set (y # ys) = set xs" using assms set_sort[of f xs] by simp
  moreover have "sorted (map f (y # ys))" using assms sorted_sort_key[of f xs] by simp
  ultimately show ?thesis by auto
qed

lemma first_empty_set:
  "set xs = set ys \<Longrightarrow> first_empty chain xs = first_empty chain ys"
proof (induction chain arbitrary: xs ys)
  case Nil
  then show ?case by simp
next
  case (Cons pr chain)
  have s: "set (filter (fst pr) xs) = set (filter (fst pr) ys)" using Cons.prems by simp
  then have e: "filter (fst pr) xs = [] \<longleftrightarrow> filter (fst pr) ys = []"
    by (metis set_empty)
  show ?case using Cons.IH[OF s] e by simp
qed

lemma first_empty_survivors:
  "first_empty (eligibility_chain usage w ordr) cs = None
     \<longleftrightarrow> survivors usage w ordr cs \<noteq> []"
  by (auto simp: eligibility_chain_def survivors_def filter_empty_conv)

lemma survivors_set:
  "set (survivors usage w ordr cs) =
     {c \<in> set cs. zone_ok ordr c \<and> cod_accepted ordr c \<and> product_ok ordr c
                  \<and> capacity_ok usage w c}"
  by (auto simp: survivors_def)

text \<open>What one pass of the loop body does, read off the chain.\<close>

lemma plan_step_rejects:
  assumes "plan_step pf cs st ordr = Inr st'" and "order_weight pf ordr = Inr w"
    and "first_empty (eligibility_chain (capacity_usage st) w ordr) cs = Some reason"
  shows "st' = reject st (orderid ordr) reason"
  using assms by (simp add: plan_step_chain py_bind_def)

lemma plan_step_assigns:
  assumes "plan_step pf cs st ordr = Inr st'" and "order_weight pf ordr = Inr w"
    and "first_empty (eligibility_chain (capacity_usage st) w ordr) cs = None"
  obtains chosen where "chosen \<in> set (survivors (capacity_usage st) w ordr cs)"
    and "\<forall>c\<in>set (survivors (capacity_usage st) w ordr cs).
           (usage_of (capacity_usage st) (courierid chosen), priority_key chosen)
             \<le> (usage_of (capacity_usage st) (courierid c), priority_key c)"
    and "st' = assign st (orderid ordr) w chosen"
proof -
  let ?key = "\<lambda>c. (usage_of (capacity_usage st) (courierid c), priority_key c)"
  let ?S = "survivors (capacity_usage st) w ordr cs"
  from assms have "(case sort_key ?key ?S of [] \<Rightarrow> Inl IndexError
      | chosen # _ \<Rightarrow> Inr (assign st (orderid ordr) w chosen)) = Inr st'"
    by (simp add: plan_step_chain py_bind_def)
  then obtain chosen ys where s: "sort_key ?key ?S = chosen # ys"
    and st': "st' = assign st (orderid ordr) w chosen"
    by (cases "sort_key ?key ?S") auto
  from sort_key_head[OF s] st' that show ?thesis by blast
qed

lemma plan_step_weight:
  assumes "plan_step pf cs st ordr = Inr st'"
  obtains w where "order_weight pf ordr = Inr w"
  using assms by (auto simp: plan_step_chain py_bind_Inr_iff)

lemma usage_of_update:
  "usage_of (AList.update k v usage) k' = (if k' = k then v else usage_of usage k')"
  by (simp add: usage_of_def update_conv')

lemma plan_step_reasons_other:
  assumes "plan_step pf cs st ordr = Inr st'" and "k \<noteq> orderid ordr"
  shows "map_of (unassigned_reasons st') k = map_of (unassigned_reasons st) k"
proof -
  from assms(1) obtain w where w: "order_weight pf ordr = Inr w" by (rule plan_step_weight)
  show ?thesis
  proof (cases "first_empty (eligibility_chain (capacity_usage st) w ordr) cs")
    case None
    from plan_step_assigns[OF assms(1) w None] obtain chosen
      where "st' = assign st (orderid ordr) w chosen" by blast
    then show ?thesis by (simp add: assign_def)
  next
    case (Some reason)
    from plan_step_rejects[OF assms(1) w Some] assms(2) show ?thesis
      by (simp add: reject_def update_conv')
  qed
qed

lemma plan_loop_reasons_other:
  assumes "plan_loop pf cs st os = Inr fin" and "k \<notin> orderid ` set os"
  shows "map_of (unassigned_reasons fin) k = map_of (unassigned_reasons st) k"
  using assms
proof (induction os arbitrary: st)
  case Nil
  then show ?case by simp
next
  case (Cons x xs)
  from Cons.prems(1) obtain st' where s: "plan_step pf cs st x = Inr st'"
    and l: "plan_loop pf cs st' xs = Inr fin"
    by (auto simp: py_bind_Inr_iff)
  have "map_of (unassigned_reasons fin) k = map_of (unassigned_reasons st') k"
    using Cons.IH[OF l] Cons.prems(2) by simp
  also have "\<dots> = map_of (unassigned_reasons st) k"
    using plan_step_reasons_other[OF s] Cons.prems(2) by simp
  finally show ?case .
qed

section \<open>The reason of a rejection\<close>

lemma plan_assignments_split:
  assumes "plan_assignments pf (pre @ ordr # post) couriers = Inr fin"
  obtains st st' w where "plan_assignments pf pre couriers = Inr st"
    and "order_weight pf ordr = Inr w"
    and "plan_step pf (sort_key priority_key couriers) st ordr = Inr st'"
    and "plan_loop pf (sort_key priority_key couriers) st' post = Inr fin"
proof -
  from assms obtain st st' where
    a: "plan_loop pf (sort_key priority_key couriers) (initial_plan couriers) pre = Inr st"
    and b: "plan_step pf (sort_key priority_key couriers) st ordr = Inr st'"
    and c: "plan_loop pf (sort_key priority_key couriers) st' post = Inr fin"
    unfolding plan_assignments_def by (rule plan_loop_split)
  from b obtain w where "order_weight pf ordr = Inr w" by (rule plan_step_weight)
  with a b c that show ?thesis by (simp add: plan_assignments_def)
qed

lemma chain_roster:
  "first_empty (eligibility_chain usage w ordr) (sort_key priority_key couriers) =
   first_empty (eligibility_chain usage w ordr) couriers"
  by (rule first_empty_set) simp

text \<open>
  Claim C3. In a run that returns, take any order of the input and the state in which the
  loop reaches it. If some predicate of the chain zone, COD, product exclusion, capacity
  leaves no candidate, the order is appended to the unassigned list and the reason recorded
  under its identifier is the one of the first such predicate, with the four reason strings
  of the chain; nothing else of the state changes, and the final mapping still holds that
  reason unless a later order carries the same identifier. If every predicate leaves a
  candidate, the order is not added to the unassigned list and no reason is recorded.
\<close>

theorem plan_unassigned_reason:
  assumes "plan_assignments pf (pre @ ordr # post) couriers = Inr fin"
  shows "\<exists>st st' w.
      plan_assignments pf pre couriers = Inr st
    \<and> order_weight pf ordr = Inr w
    \<and> plan_step pf (sort_key priority_key couriers) st ordr = Inr st'
    \<and> plan_loop pf (sort_key priority_key couriers) st' post = Inr fin
    \<and> (case first_empty
               [(zone_ok ordr, ''Zone not covered''),
                (cod_accepted ordr, ''COD not accepted''),
                (product_ok ordr, ''Excluded product type: '' @ producttype ordr),
                (capacity_ok (capacity_usage st) w, ''Capacity exceeded'')] couriers of
          Some reason \<Rightarrow>
              unassigned st' = unassigned st @ [orderid ordr]
            \<and> map_of (unassigned_reasons st') (orderid ordr) = Some reason
            \<and> assignments st' = assignments st
            \<and> capacity_usage st' = capacity_usage st
            \<and> (orderid ordr \<notin> orderid ` set post
                 \<longrightarrow> map_of (unassigned_reasons fin) (orderid ordr) = Some reason)
        | None \<Rightarrow>
              unassigned st' = unassigned st
            \<and> unassigned_reasons st' = unassigned_reasons st)"
proof -
  let ?cs = "sort_key priority_key couriers"
  from assms obtain st st' w where pre: "plan_assignments pf pre couriers = Inr st"
    and w: "order_weight pf ordr = Inr w"
    and step: "plan_step pf ?cs st ordr = Inr st'"
    and post: "plan_loop pf ?cs st' post = Inr fin"
    by (rule plan_assignments_split)
  let ?chain = "[(zone_ok ordr, ''Zone not covered''),
                (cod_accepted ordr, ''COD not accepted''),
                (product_ok ordr, ''Excluded product type: '' @ producttype ordr),
                (capacity_ok (capacity_usage st) w, ''Capacity exceeded'')]"
  have chain: "first_empty (eligibility_chain (capacity_usage st) w ordr) ?cs
      = first_empty ?chain couriers"
    unfolding chain_roster by (simp only: eligibility_chain_def)
  have "case first_empty ?chain couriers of
          Some reason \<Rightarrow>
              unassigned st' = unassigned st @ [orderid ordr]
            \<and> map_of (unassigned_reasons st') (orderid ordr) = Some reason
            \<and> assignments st' = assignments st
            \<and> capacity_usage st' = capacity_usage st
            \<and> (orderid ordr \<notin> orderid ` set post
                 \<longrightarrow> map_of (unassigned_reasons fin) (orderid ordr) = Some reason)
        | None \<Rightarrow>
              unassigned st' = unassigned st
            \<and> unassigned_reasons st' = unassigned_reasons st"
  proof (cases "first_empty ?chain couriers")
    case None
    with chain have "first_empty (eligibility_chain (capacity_usage st) w ordr) ?cs = None"
      by simp
    from plan_step_assigns[OF step w this] obtain chosen
      where "st' = assign st (orderid ordr) w chosen" by blast
    then show ?thesis unfolding None by (simp add: assign_def)
  next
    case (Some reason)
    with chain have "first_empty (eligibility_chain (capacity_usage st) w ordr) ?cs = Some reason"
      by simp
    from plan_step_rejects[OF step w this]
    have st': "st' = reject st (orderid ordr) reason" .
    then have now: "map_of (unassigned_reasons st') (orderid ordr) = Some reason"
      by (simp add: reject_def update_conv')
    have "map_of (unassigned_reasons fin) (orderid ordr) = Some reason"
      if "orderid ordr \<notin> orderid ` set post"
      using plan_loop_reasons_other[OF post that] now by simp
    with st' now show ?thesis unfolding Some by (simp add: reject_def)
  qed
  with pre w step post show ?thesis by blast
qed

theorem plan_unassigned_reason_witness:
  "plan_assignments (map_of [])
     ([\<lparr>orderid = ''A'', city = ''Alex'', paymenttype = ''COD'', producttype = ''standard'',
         weight = PInt 1, deadline = [], address = []\<rparr>]
      @ \<lparr>orderid = ''B'', city = ''Giza'', paymenttype = ''COD'', producttype = ''fragile'',
          weight = PInt 1, deadline = [], address = []\<rparr> # [])
     [\<lparr>courierid = ''C1'', zonescovered = Some [''Giza''], acceptscod = Some True,
        dailycapacity = Some 10, priority = Some 1, exclusions = Some [''fragile'']\<rparr>]
   = Inr \<lparr>assignments = [], unassigned = [''A'', ''B''], capacity_usage = [(''C1'', 0)],
          unassigned_reasons = [(''A'', ''Zone not covered''),
                                (''B'', ''Excluded product type: fragile'')]\<rparr>
   \<and> first_empty
        [(zone_ok \<lparr>orderid = ''B'', city = ''Giza'', paymenttype = ''COD'',
                    producttype = ''fragile'', weight = PInt 1, deadline = [], address = []\<rparr>,
          ''Zone not covered''),
         (cod_accepted \<lparr>orderid = ''B'', city = ''Giza'', paymenttype = ''COD'',
                    producttype = ''fragile'', weight = PInt 1, deadline = [], address = []\<rparr>,
          ''COD not accepted''),
         (product_ok \<lparr>orderid = ''B'', city = ''Giza'', paymenttype = ''COD'',
                    producttype = ''fragile'', weight = PInt 1, deadline = [], address = []\<rparr>,
          ''Excluded product type: fragile''),
         (capacity_ok [(''C1'', 0)] 1, ''Capacity exceeded'')]
        [\<lparr>courierid = ''C1'', zonescovered = Some [''Giza''], acceptscod = Some True,
           dailycapacity = Some 10, priority = Some 1, exclusions = Some [''fragile'']\<rparr>]
      = Some ''Excluded product type: fragile''
   \<and> map_of (unassigned_reasons
        \<lparr>assignments = [], unassigned = [''A'', ''B''], capacity_usage = [(''C1'', 0)],
          unassigned_reasons = [(''A'', ''Zone not covered''),
                                (''B'', ''Excluded product type: fragile'')]\<rparr>) ''B''
      = Some ''Excluded product type: fragile''"
proof -
  let ?a = "\<lparr>orderid = ''A'', city = ''Alex'', paymenttype = ''COD'', producttype = ''standard'',
         weight = PInt 1, deadline = [], address = []\<rparr>"
  let ?b = "\<lparr>orderid = ''B'', city = ''Giza'', paymenttype = ''COD'', producttype = ''fragile'',
          weight = PInt 1, deadline = [], address = []\<rparr>"
  let ?cs = "[\<lparr>courierid = ''C1'', zonescovered = Some [''Giza''], acceptscod = Some True,
        dailycapacity = Some 10, priority = Some 1, exclusions = Some [''fragile'']\<rparr>]"
  let ?fin = "\<lparr>assignments = [], unassigned = [''A'', ''B''], capacity_usage = [(''C1'', 0)],
          unassigned_reasons = [(''A'', ''Zone not covered''),
                                (''B'', ''Excluded product type: fragile'')]\<rparr>"
  have run: "plan_assignments (map_of []) ([?a] @ ?b # []) ?cs = Inr ?fin"
    by code_simp
  have pre: "plan_assignments (map_of []) [?a] ?cs
      = Inr \<lparr>assignments = [], unassigned = [''A''], capacity_usage = [(''C1'', 0)],
              unassigned_reasons = [(''A'', ''Zone not covered'')]\<rparr>"
    by code_simp
  have w: "order_weight (map_of []) ?b = Inr 1"
    by (simp add: order_weight_def py_or_def)
  from plan_unassigned_reason[OF run] show ?thesis
  proof (elim exE conjE)
    fix st st' w'
    assume a: "plan_assignments (map_of []) [?a] ?cs = Inr st"
      and b: "order_weight (map_of []) ?b = Inr w'"
      and c: "case first_empty
               [(zone_ok ?b, ''Zone not covered''),
                (cod_accepted ?b, ''COD not accepted''),
                (product_ok ?b, ''Excluded product type: '' @ producttype ?b),
                (capacity_ok (capacity_usage st) w', ''Capacity exceeded'')] ?cs of
          Some reason \<Rightarrow>
              unassigned st' = unassigned st @ [orderid ?b]
            \<and> map_of (unassigned_reasons st') (orderid ?b) = Some reason
            \<and> assignments st' = assignments st
            \<and> capacity_usage st' = capacity_usage st
            \<and> (orderid ?b \<notin> orderid ` set []
                 \<longrightarrow> map_of (unassigned_reasons ?fin) (orderid ?b) = Some reason)
        | None \<Rightarrow>
              unassigned st' = unassigned st
            \<and> unassigned_reasons st' = unassigned_reasons st"
    from a pre have st: "st = \<lparr>assignments = [], unassigned = [''A''],
        capacity_usage = [(''C1'', 0)], unassigned_reasons = [(''A'', ''Zone not covered'')]\<rparr>"
      by (simp only: sum.inject)
    from b w have w': "w' = 1" by (simp only: sum.inject)
    have fe: "first_empty
               [(zone_ok ?b, ''Zone not covered''),
                (cod_accepted ?b, ''COD not accepted''),
                (product_ok ?b, ''Excluded product type: '' @ producttype ?b),
                (capacity_ok (capacity_usage st) w', ''Capacity exceeded'')] ?cs
        = Some ''Excluded product type: fragile''"
      unfolding st w' by code_simp
    from c have r: "map_of (unassigned_reasons ?fin) ''B'' = Some ''Excluded product type: fragile''"
      unfolding fe by simp
    have fe': "first_empty
        [(zone_ok ?b, ''Zone not covered''),
         (cod_accepted ?b, ''COD not accepted''),
         (product_ok ?b, ''Excluded product type: fragile''),
         (capacity_ok [(''C1'', 0)] 1, ''Capacity exceeded'')] ?cs
        = Some ''Excluded product type: fragile''"
      using fe unfolding st w' by simp
    from run fe' r show ?thesis by (intro conjI)
  qed
qed

section \<open>The choice among the survivors\<close>

lemma survivors_roster:
  "set (survivors usage w ordr (sort_key priority_key couriers)) =
   set (survivors usage w ordr couriers)"
  by (simp add: survivors_set)

text \<open>
  Claim C4, as the code has it. In a run that returns, take any order of the input and the
  state in which the loop reaches it. If some courier survives all four filters, the order
  is assigned to a survivor whose current usage is smallest, and among those of equal usage
  to one whose priority number is smallest, a courier with no declared priority counting as
  priority \<open>10 ^ 9\<close>: such a courier is chosen only when no survivor of the same usage
  declares a priority below \<open>10 ^ 9\<close>. The assignment is recorded, the weight of the order is
  added to the usage of the chosen courier, and the rest of the run starts from that state.
\<close>

theorem plan_chooses_least_loaded:
  assumes "plan_assignments pf (pre @ ordr # post) couriers = Inr fin"
  shows "\<exists>st w.
      plan_assignments pf pre couriers = Inr st
    \<and> order_weight pf ordr = Inr w
    \<and> (survivors (capacity_usage st) w ordr couriers \<noteq> [] \<longrightarrow>
         (\<exists>chosen\<in>set (survivors (capacity_usage st) w ordr couriers).
             (\<forall>c\<in>set (survivors (capacity_usage st) w ordr couriers).
                 usage_of (capacity_usage st) (courierid chosen)
                   < usage_of (capacity_usage st) (courierid c)
               \<or> usage_of (capacity_usage st) (courierid chosen)
                   = usage_of (capacity_usage st) (courierid c)
                 \<and> (case priority chosen of None \<Rightarrow> 10 ^ 9 | Some p \<Rightarrow> p)
                     \<le> (case priority c of None \<Rightarrow> 10 ^ 9 | Some p \<Rightarrow> p))
           \<and> (\<forall>c\<in>set (survivors (capacity_usage st) w ordr couriers). \<forall>p.
                   priority chosen = None
                 \<and> usage_of (capacity_usage st) (courierid chosen)
                     = usage_of (capacity_usage st) (courierid c)
                 \<and> priority c = Some p
                 \<longrightarrow> 10 ^ 9 \<le> p)
           \<and> plan_step pf (sort_key priority_key couriers) st ordr
               = Inr (assign st (orderid ordr) w chosen)
           \<and> assignments (assign st (orderid ordr) w chosen)
               = assignments st @ [\<lparr>orderId = orderid ordr, courierId = courierid chosen\<rparr>]
           \<and> map_of (capacity_usage (assign st (orderid ordr) w chosen)) (courierid chosen)
               = Some (usage_of (capacity_usage st) (courierid chosen) + w)
           \<and> plan_loop pf (sort_key priority_key couriers)
                (assign st (orderid ordr) w chosen) post = Inr fin))"
proof -
  let ?cs = "sort_key priority_key couriers"
  from assms obtain st st' w where pre: "plan_assignments pf pre couriers = Inr st"
    and w: "order_weight pf ordr = Inr w"
    and step: "plan_step pf ?cs st ordr = Inr st'"
    and post: "plan_loop pf ?cs st' post = Inr fin"
    by (rule plan_assignments_split)
  let ?S = "survivors (capacity_usage st) w ordr couriers"
  let ?u = "\<lambda>c. usage_of (capacity_usage st) (courierid c)"
  have "\<exists>chosen\<in>set ?S.
             (\<forall>c\<in>set ?S. ?u chosen < ?u c
               \<or> ?u chosen = ?u c
                 \<and> (case priority chosen of None \<Rightarrow> 10 ^ 9 | Some p \<Rightarrow> p)
                     \<le> (case priority c of None \<Rightarrow> 10 ^ 9 | Some p \<Rightarrow> p))
           \<and> (\<forall>c\<in>set ?S. \<forall>p.
                   priority chosen = None \<and> ?u chosen = ?u c \<and> priority c = Some p
                 \<longrightarrow> 10 ^ 9 \<le> p)
           \<and> plan_step pf ?cs st ordr = Inr (assign st (orderid ordr) w chosen)
           \<and> assignments (assign st (orderid ordr) w chosen)
               = assignments st @ [\<lparr>orderId = orderid ordr, courierId = courierid chosen\<rparr>]
           \<and> map_of (capacity_usage (assign st (orderid ordr) w chosen)) (courierid chosen)
               = Some (?u chosen + w)
           \<and> plan_loop pf ?cs (assign st (orderid ordr) w chosen) post = Inr fin"
    if ne: "?S \<noteq> []"
  proof -
    from ne have "survivors (capacity_usage st) w ordr ?cs \<noteq> []"
      using survivors_roster[of "capacity_usage st" w ordr couriers] by (metis set_empty)
    then have "first_empty (eligibility_chain (capacity_usage st) w ordr) ?cs = None"
      by (simp add: first_empty_survivors)
    from plan_step_assigns[OF step w this] obtain chosen
      where in_s: "chosen \<in> set (survivors (capacity_usage st) w ordr ?cs)"
        and least: "\<forall>c\<in>set (survivors (capacity_usage st) w ordr ?cs).
           (?u chosen, priority_key chosen) \<le> (?u c, priority_key c)"
        and st': "st' = assign st (orderid ordr) w chosen"
      by blast
    have "\<forall>c\<in>set ?S. ?u chosen < ?u c
               \<or> ?u chosen = ?u c
                 \<and> (case priority chosen of None \<Rightarrow> 10 ^ 9 | Some p \<Rightarrow> p)
                     \<le> (case priority c of None \<Rightarrow> 10 ^ 9 | Some p \<Rightarrow> p)"
      using least unfolding survivors_roster priority_key_def by auto
    moreover have "\<forall>c\<in>set ?S. \<forall>p.
                   priority chosen = None \<and> ?u chosen = ?u c \<and> priority c = Some p
                 \<longrightarrow> 10 ^ 9 \<le> p"
      using least unfolding survivors_roster priority_key_def by auto
    moreover have "chosen \<in> set ?S" using in_s unfolding survivors_roster .
    moreover have "map_of (capacity_usage (assign st (orderid ordr) w chosen)) (courierid chosen)
               = Some (?u chosen + w)"
      by (simp add: assign_def update_conv')
    moreover have "assignments (assign st (orderid ordr) w chosen)
               = assignments st @ [\<lparr>orderId = orderid ordr, courierId = courierid chosen\<rparr>]"
      by (simp add: assign_def)
    ultimately show ?thesis using step post unfolding st' by blast
  qed
  with pre w show ?thesis by blast
qed

theorem plan_chooses_least_loaded_witness:
  "plan_assignments (map_of [])
     ([\<lparr>orderid = ''A'', city = ''Giza'', paymenttype = ''COD'', producttype = ''fragile'',
         weight = PInt 5, deadline = [], address = []\<rparr>]
      @ \<lparr>orderid = ''B'', city = ''Giza'', paymenttype = ''COD'', producttype = ''standard'',
          weight = PInt 1, deadline = [], address = []\<rparr> # [])
     [\<lparr>courierid = ''C1'', zonescovered = Some [''Giza''], acceptscod = Some True,
        dailycapacity = Some 10, priority = Some 1, exclusions = Some [''fragile'']\<rparr>,
      \<lparr>courierid = ''C2'', zonescovered = Some [''Giza''], acceptscod = Some True,
        dailycapacity = Some 10, priority = Some 2, exclusions = Some []\<rparr>]
   = Inr \<lparr>assignments = [\<lparr>orderId = ''A'', courierId = ''C2''\<rparr>,
                          \<lparr>orderId = ''B'', courierId = ''C1''\<rparr>],
          unassigned = [], capacity_usage = [(''C1'', 1), (''C2'', 5)],
          unassigned_reasons = []\<rparr>
   \<and> (\<exists>chosen\<in>set (survivors [(''C1'', 0), (''C2'', 5)] 1
          \<lparr>orderid = ''B'', city = ''Giza'', paymenttype = ''COD'', producttype = ''standard'',
            weight = PInt 1, deadline = [], address = []\<rparr>
          [\<lparr>courierid = ''C1'', zonescovered = Some [''Giza''], acceptscod = Some True,
             dailycapacity = Some 10, priority = Some 1, exclusions = Some [''fragile'']\<rparr>,
           \<lparr>courierid = ''C2'', zonescovered = Some [''Giza''], acceptscod = Some True,
             dailycapacity = Some 10, priority = Some 2, exclusions = Some []\<rparr>]).
        courierid chosen = ''C1''
      \<and> map_of (capacity_usage
            (assign \<lparr>assignments = [\<lparr>orderId = ''A'', courierId = ''C2''\<rparr>], unassigned = [],
                     capacity_usage = [(''C1'', 0), (''C2'', 5)], unassigned_reasons = []\<rparr>
               ''B'' 1 chosen)) ''C1'' = Some 1)"
proof -
  let ?a = "\<lparr>orderid = ''A'', city = ''Giza'', paymenttype = ''COD'', producttype = ''fragile'',
         weight = PInt 5, deadline = [], address = []\<rparr>"
  let ?b = "\<lparr>orderid = ''B'', city = ''Giza'', paymenttype = ''COD'', producttype = ''standard'',
          weight = PInt 1, deadline = [], address = []\<rparr>"
  let ?c1 = "\<lparr>courierid = ''C1'', zonescovered = Some [''Giza''], acceptscod = Some True,
        dailycapacity = Some 10, priority = Some 1, exclusions = Some [''fragile'']\<rparr>"
  let ?c2 = "\<lparr>courierid = ''C2'', zonescovered = Some [''Giza''], acceptscod = Some True,
        dailycapacity = Some 10, priority = Some 2, exclusions = Some []\<rparr>"
  let ?st = "\<lparr>assignments = [\<lparr>orderId = ''A'', courierId = ''C2''\<rparr>], unassigned = [],
                     capacity_usage = [(''C1'', 0), (''C2'', 5)], unassigned_reasons = []\<rparr>"
  let ?fin = "\<lparr>assignments = [\<lparr>orderId = ''A'', courierId = ''C2''\<rparr>,
                          \<lparr>orderId = ''B'', courierId = ''C1''\<rparr>],
          unassigned = [], capacity_usage = [(''C1'', 1), (''C2'', 5)],
          unassigned_reasons = []\<rparr>"
  have run: "plan_assignments (map_of []) ([?a] @ ?b # []) [?c1, ?c2] = Inr ?fin"
    by code_simp
  have pre: "plan_assignments (map_of []) [?a] [?c1, ?c2] = Inr ?st"
    by code_simp
  have w: "order_weight (map_of []) ?b = Inr 1"
    by (simp add: order_weight_def py_or_def)
  have ne: "survivors [(''C1'', 0), (''C2'', 5)] 1 ?b [?c1, ?c2] \<noteq> []"
    by code_simp
  from plan_chooses_least_loaded[OF run] show ?thesis
  proof (elim exE conjE)
    fix st w'
    assume a: "plan_assignments (map_of []) [?a] [?c1, ?c2] = Inr st"
      and b: "order_weight (map_of []) ?b = Inr w'"
      and c: "survivors (capacity_usage st) w' ?b [?c1, ?c2] \<noteq> [] \<longrightarrow>
         (\<exists>chosen\<in>set (survivors (capacity_usage st) w' ?b [?c1, ?c2]).
             (\<forall>c\<in>set (survivors (capacity_usage st) w' ?b [?c1, ?c2]).
                 usage_of (capacity_usage st) (courierid chosen)
                   < usage_of (capacity_usage st) (courierid c)
               \<or> usage_of (capacity_usage st) (courierid chosen)
                   = usage_of (capacity_usage st) (courierid c)
                 \<and> (case priority chosen of None \<Rightarrow> 10 ^ 9 | Some p \<Rightarrow> p)
                     \<le> (case priority c of None \<Rightarrow> 10 ^ 9 | Some p \<Rightarrow> p))
           \<and> (\<forall>c\<in>set (survivors (capacity_usage st) w' ?b [?c1, ?c2]). \<forall>p.
                   priority chosen = None
                 \<and> usage_of (capacity_usage st) (courierid chosen)
                     = usage_of (capacity_usage st) (courierid c)
                 \<and> priority c = Some p
                 \<longrightarrow> 10 ^ 9 \<le> p)
           \<and> plan_step (map_of []) (sort_key priority_key [?c1, ?c2]) st ?b
               = Inr (assign st (orderid ?b) w' chosen)
           \<and> assignments (assign st (orderid ?b) w' chosen)
               = assignments st @ [\<lparr>orderId = orderid ?b, courierId = courierid chosen\<rparr>]
           \<and> map_of (capacity_usage (assign st (orderid ?b) w' chosen)) (courierid chosen)
               = Some (usage_of (capacity_usage st) (courierid chosen) + w')
           \<and> plan_loop (map_of []) (sort_key priority_key [?c1, ?c2])
                (assign st (orderid ?b) w' chosen) [] = Inr ?fin)"
    from a pre have st: "st = ?st" by (simp only: sum.inject)
    from b w have w': "w' = 1" by (simp only: sum.inject)
    from c ne obtain chosen where
      in_s: "chosen \<in> set (survivors [(''C1'', 0), (''C2'', 5)] 1 ?b [?c1, ?c2])"
      and fin: "plan_loop (map_of []) (sort_key priority_key [?c1, ?c2])
                (assign ?st ''B'' 1 chosen) [] = Inr ?fin"
      and u: "map_of (capacity_usage (assign ?st ''B'' 1 chosen)) (courierid chosen)
               = Some (usage_of [(''C1'', 0), (''C2'', 5)] (courierid chosen) + 1)"
      unfolding st w' by auto
    from fin have "assign ?st ''B'' 1 chosen = ?fin" by simp
    then have "assignments (assign ?st ''B'' 1 chosen) = assignments ?fin" by simp
    then have cid: "courierid chosen = ''C1''" by (simp add: assign_def)
    from u have "map_of (capacity_usage (assign ?st ''B'' 1 chosen)) ''C1'' = Some 1"
      unfolding cid by (simp add: usage_of_def)
    with in_s cid run show ?thesis by blast
  qed
qed

text \<open>
  The claim as the specification words it fails where a declared priority is not below
  \<open>10 ^ 9\<close>: both couriers survive with usage 0, and the order goes to the courier that
  declares no priority, ahead of the one that declares priority 2000000000; and, the courier
  that declares no priority standing first in the roster, ahead of the one that declares
  priority 1000000000.
\<close>

theorem plan_undeclared_priority_counterexample:
  "plan_assignments (map_of [])
     [\<lparr>orderid = ''O1'', city = ''Giza'', paymenttype = ''Prepaid'', producttype = ''standard'',
        weight = PInt 1, deadline = [], address = []\<rparr>]
     [\<lparr>courierid = ''A'', zonescovered = Some [''Giza''], acceptscod = Some True,
        dailycapacity = Some 10, priority = Some 2000000000, exclusions = Some []\<rparr>,
      \<lparr>courierid = ''B'', zonescovered = Some [''Giza''], acceptscod = Some True,
        dailycapacity = Some 10, priority = None, exclusions = Some []\<rparr>]
   = Inr \<lparr>assignments = [\<lparr>orderId = ''O1'', courierId = ''B''\<rparr>], unassigned = [],
          capacity_usage = [(''A'', 0), (''B'', 1)], unassigned_reasons = []\<rparr>
   \<and> map courierid (survivors [(''A'', 0), (''B'', 0)] 1
        \<lparr>orderid = ''O1'', city = ''Giza'', paymenttype = ''Prepaid'', producttype = ''standard'',
          weight = PInt 1, deadline = [], address = []\<rparr>
        [\<lparr>courierid = ''A'', zonescovered = Some [''Giza''], acceptscod = Some True,
           dailycapacity = Some 10, priority = Some 2000000000, exclusions = Some []\<rparr>,
         \<lparr>courierid = ''B'', zonescovered = Some [''Giza''], acceptscod = Some True,
           dailycapacity = Some 10, priority = None, exclusions = Some []\<rparr>])
     = [''A'', ''B'']
   \<and> plan_assignments (map_of [])
       [\<lparr>orderid = ''O1'', city = ''Giza'', paymenttype = ''Prepaid'', producttype = ''standard'',
          weight = PInt 1, deadline = [], address = []\<rparr>]
       [\<lparr>courierid = ''B'', zonescovered = Some [''Giza''], acceptscod = Some True,
          dailycapacity = Some 10, priority = None, exclusions = Some []\<rparr>,
        \<lparr>courierid = ''A'', zonescovered = Some [''Giza''], acceptscod = Some True,
          dailycapacity = Some 10, priority = Some 1000000000, exclusions = Some []\<rparr>]
     = Inr \<lparr>assignments = [\<lparr>orderId = ''O1'', courierId = ''B''\<rparr>], unassigned = [],
            capacity_usage = [(''B'', 1), (''A'', 0)], unassigned_reasons = []\<rparr>"
  by code_simp

section \<open>Usage against capacity\<close>

lemma map_of_dict_acc:
  "map_of (foldl (\<lambda>d kv. AList.update (fst kv) (snd kv) d) acc xs) =
     map_of acc ++ map_of (rev xs)"
proof (induction xs arbitrary: acc)
  case Nil
  then show ?case by simp
next
  case (Cons x xs)
  have "map_of (AList.update (fst x) (snd x) acc) ++ map_of (rev xs)
      = map_of acc ++ (map_of [x] ++ map_of (rev xs))"
    by (cases x) (simp add: update_conv' map_add_def fun_eq_iff split: option.splits)
  then show ?case using Cons.IH[of "AList.update (fst x) (snd x) acc"] by simp
qed

lemma map_of_dict_of_items: "map_of (dict_of_items xs) = map_of (rev xs)"
  by (simp add: dict_of_items_def map_of_dict_acc)

lemma initial_usage:
  "map_of (capacity_usage (initial_plan couriers)) k =
     (if k \<in> courierid ` set couriers then Some 0 else None)"
proof (cases "map_of (rev (map (\<lambda>c. (courierid c, 0 :: real)) couriers)) k")
  case None
  then have "k \<notin> courierid ` set couriers"
    by (simp add: map_of_eq_None_iff image_image)
  with None show ?thesis by (simp add: initial_plan_def map_of_dict_of_items)
next
  case (Some v)
  then have "(k, v) \<in> set (rev (map (\<lambda>c. (courierid c, 0 :: real)) couriers))"
    by (rule map_of_SomeD)
  then have "v = 0" and "k \<in> courierid ` set couriers" by auto
  with Some show ?thesis by (simp add: initial_plan_def map_of_dict_of_items)
qed






section \<open>Usage over the run\<close>

lemma plan_step_usage_keys:
  assumes "plan_step pf cs st ordr = Inr st'" and "map_of (capacity_usage st) k \<noteq> None"
  shows "map_of (capacity_usage st') k \<noteq> None"
proof -
  from assms(1) obtain w where w: "order_weight pf ordr = Inr w" by (rule plan_step_weight)
  show ?thesis
  proof (cases "first_empty (eligibility_chain (capacity_usage st) w ordr) cs")
    case (Some reason)
    from plan_step_rejects[OF assms(1) w Some] assms(2) show ?thesis by (simp add: reject_def)
  next
    case None
    from plan_step_assigns[OF assms(1) w None] obtain chosen
      where "st' = assign st (orderid ordr) w chosen" by blast
    with assms(2) show ?thesis by (simp add: assign_def update_conv')
  qed
qed

lemma plan_loop_usage_keys:
  assumes "plan_loop pf cs st os = Inr fin" and "map_of (capacity_usage st) k \<noteq> None"
  shows "map_of (capacity_usage fin) k \<noteq> None"
  using assms
proof (induction os arbitrary: st)
  case Nil
  then show ?case by simp
next
  case (Cons x xs)
  from Cons.prems(1) obtain st' where s: "plan_step pf cs st x = Inr st'"
    and l: "plan_loop pf cs st' xs = Inr fin"
    by (auto simp: py_bind_Inr_iff)
  from plan_step_usage_keys[OF s Cons.prems(2)] show ?case by (rule Cons.IH[OF l])
qed

text \<open>The lookup \<^verbatim>\<open>capacity_usage[c["courierid"]]\<close> never misses its key.\<close>

lemma usage_keys:
  assumes "plan_assignments pf os couriers = Inr fin" and "c \<in> set couriers"
  shows "map_of (capacity_usage fin) (courierid c) \<noteq> None"
proof -
  have "map_of (capacity_usage (initial_plan couriers)) (courierid c) \<noteq> None"
    using assms(2) by (simp add: initial_usage)
  with assms(1) show ?thesis unfolding plan_assignments_def by (rule plan_loop_usage_keys)
qed

lemma plan_step_usage_mono:
  assumes "plan_step pf cs st ordr = Inr st'" and "order_weight pf ordr = Inr w" and "0 \<le> w"
  shows "usage_of (capacity_usage st) k \<le> usage_of (capacity_usage st') k"
proof (cases "first_empty (eligibility_chain (capacity_usage st) w ordr) cs")
  case (Some reason)
  from plan_step_rejects[OF assms(1,2) Some] show ?thesis by (simp add: reject_def)
next
  case None
  from plan_step_assigns[OF assms(1,2) None] obtain chosen
    where "st' = assign st (orderid ordr) w chosen" by blast
  with assms(3) show ?thesis by (simp add: assign_def usage_of_update)
qed

lemma plan_assignments_snoc:
  assumes "plan_assignments pf pre couriers = Inr st"
    and "plan_step pf (sort_key priority_key couriers) st ordr = Inr st'"
  shows "plan_assignments pf (pre @ [ordr]) couriers = Inr st'"
  using assms by (simp add: plan_assignments_def plan_loop_append py_bind_def)

text \<open>
  Claim C7, as the code has it. The usage mapping starts at zero for every courier, and at
  every step of a run that returns, the weight of the order at that step not being negative,
  no courier's usage is lower after the step than before it.
\<close>

theorem plan_usage_never_decreases:
  assumes "plan_assignments pf (pre @ ordr # post) couriers = Inr fin"
    and "\<forall>w. order_weight pf ordr = Inr w \<longrightarrow> 0 \<le> w"
  shows "plan_assignments pf [] couriers = Inr (initial_plan couriers)
    \<and> (\<forall>c\<in>set couriers.
          map_of (capacity_usage (initial_plan couriers)) (courierid c) = Some 0)
    \<and> (\<exists>st st'.
          plan_assignments pf pre couriers = Inr st
        \<and> plan_assignments pf (pre @ [ordr]) couriers = Inr st'
        \<and> (\<forall>c\<in>set couriers. \<exists>u u'.
              map_of (capacity_usage st) (courierid c) = Some u
            \<and> map_of (capacity_usage st') (courierid c) = Some u'
            \<and> u \<le> u'))"
proof (intro conjI)
  show "plan_assignments pf [] couriers = Inr (initial_plan couriers)"
    by (simp add: plan_assignments_def)
  show "\<forall>c\<in>set couriers.
          map_of (capacity_usage (initial_plan couriers)) (courierid c) = Some 0"
    by (simp add: initial_usage)
  from assms(1) obtain st st' w where pre: "plan_assignments pf pre couriers = Inr st"
    and w: "order_weight pf ordr = Inr w"
    and step: "plan_step pf (sort_key priority_key couriers) st ordr = Inr st'"
    by (rule plan_assignments_split)
  from w assms(2) have w0: "0 \<le> w" by simp
  have snoc: "plan_assignments pf (pre @ [ordr]) couriers = Inr st'"
    using pre step by (rule plan_assignments_snoc)
  have "\<exists>u u'. map_of (capacity_usage st) (courierid c) = Some u
            \<and> map_of (capacity_usage st') (courierid c) = Some u' \<and> u \<le> u'"
    if c: "c \<in> set couriers" for c
  proof -
    from usage_keys[OF pre c] obtain u
      where u: "map_of (capacity_usage st) (courierid c) = Some u" by blast
    from usage_keys[OF snoc c] obtain u'
      where u': "map_of (capacity_usage st') (courierid c) = Some u'" by blast
    from plan_step_usage_mono[OF step w w0, of "courierid c"] u u'
    have "u \<le> u'" by (simp add: usage_of_def)
    with u u' show ?thesis by blast
  qed
  with pre snoc show "\<exists>st st'.
          plan_assignments pf pre couriers = Inr st
        \<and> plan_assignments pf (pre @ [ordr]) couriers = Inr st'
        \<and> (\<forall>c\<in>set couriers. \<exists>u u'.
              map_of (capacity_usage st) (courierid c) = Some u
            \<and> map_of (capacity_usage st') (courierid c) = Some u'
            \<and> u \<le> u')"
    by blast
qed

theorem plan_usage_never_decreases_witness:
  "plan_assignments (map_of [])
     ([] @ \<lparr>orderid = ''A'', city = ''Giza'', paymenttype = ''COD'', producttype = ''standard'',
             weight = PFloat 2.5, deadline = [], address = []\<rparr> # [])
     [\<lparr>courierid = ''C1'', zonescovered = Some [''Giza''], acceptscod = Some True,
        dailycapacity = Some 10, priority = Some 1, exclusions = Some []\<rparr>]
   = Inr \<lparr>assignments = [\<lparr>orderId = ''A'', courierId = ''C1''\<rparr>], unassigned = [],
          capacity_usage = [(''C1'', 2.5)], unassigned_reasons = []\<rparr>
   \<and> (\<exists>u u'. map_of [(''C1'', 0 :: real)] ''C1'' = Some u
          \<and> map_of [(''C1'', 2.5 :: real)] ''C1'' = Some u' \<and> u \<le> u')"
proof -
  let ?a = "\<lparr>orderid = ''A'', city = ''Giza'', paymenttype = ''COD'', producttype = ''standard'',
             weight = PFloat 2.5, deadline = [], address = []\<rparr>"
  let ?c = "\<lparr>courierid = ''C1'', zonescovered = Some [''Giza''], acceptscod = Some True,
        dailycapacity = Some 10, priority = Some 1, exclusions = Some []\<rparr>"
  let ?fin = "\<lparr>assignments = [\<lparr>orderId = ''A'', courierId = ''C1''\<rparr>], unassigned = [],
          capacity_usage = [(''C1'', 2.5)], unassigned_reasons = []\<rparr>"
  have run: "plan_assignments (map_of []) ([] @ ?a # []) [?c] = Inr ?fin" by code_simp
  have pos: "\<forall>w. order_weight (map_of []) ?a = Inr w \<longrightarrow> 0 \<le> w"
    by (simp add: order_weight_def py_or_def)
  have pre: "plan_assignments (map_of []) [] [?c]
      = Inr \<lparr>assignments = [], unassigned = [], capacity_usage = [(''C1'', 0)],
              unassigned_reasons = []\<rparr>"
    by code_simp
  have snoc: "plan_assignments (map_of []) ([] @ [?a]) [?c] = Inr ?fin" by code_simp
  from plan_usage_never_decreases[OF run pos]
  have "\<exists>st st'.
          plan_assignments (map_of []) [] [?c] = Inr st
        \<and> plan_assignments (map_of []) ([] @ [?a]) [?c] = Inr st'
        \<and> (\<forall>c\<in>set [?c]. \<exists>u u'.
              map_of (capacity_usage st) (courierid c) = Some u
            \<and> map_of (capacity_usage st') (courierid c) = Some u'
            \<and> u \<le> u')"
    by (elim conjE)
  then have "\<exists>u u'. map_of [(''C1'', 0 :: real)] ''C1'' = Some u
          \<and> map_of [(''C1'', 2.5 :: real)] ''C1'' = Some u' \<and> u \<le> u'"
    unfolding pre snoc by simp
  with run show ?thesis by (rule conjI)
qed

text \<open>
  The claim as the specification words it fails on an order of negative weight: the usage
  of the courier that takes it goes from 0 to -5.
\<close>

theorem plan_usage_decreases_counterexample:
  "map_of (capacity_usage (initial_plan
       [\<lparr>courierid = ''C1'', zonescovered = Some [''Giza''], acceptscod = Some True,
          dailycapacity = Some 10, priority = Some 1, exclusions = Some []\<rparr>])) ''C1''
     = Some 0
   \<and> plan_assignments (map_of [])
       [\<lparr>orderid = ''A'', city = ''Giza'', paymenttype = ''COD'', producttype = ''standard'',
          weight = PInt (- 5), deadline = [], address = []\<rparr>]
       [\<lparr>courierid = ''C1'', zonescovered = Some [''Giza''], acceptscod = Some True,
          dailycapacity = Some 10, priority = Some 1, exclusions = Some []\<rparr>]
     = Inr \<lparr>assignments = [\<lparr>orderId = ''A'', courierId = ''C1''\<rparr>], unassigned = [],
            capacity_usage = [(''C1'', - 5)], unassigned_reasons = []\<rparr>
   \<and> \<not> (0 :: real) \<le> - 5"
  by code_simp

section \<open>Facts about the pass over the scan log\<close>

lemma reconcile_row_delivered:
  "delivered_orders (reconcile_row sp orders planned st row) =
     (if scan_oid row = [] then delivered_orders st
      else insert (scan_oid row) (delivered_orders st))"
  by (simp add: reconcile_row_def Let_def split: option.splits)

lemma reconcile_row_misassigned:
  "misassigned_scans (reconcile_row sp orders planned st row) =
     (if scan_oid row \<noteq> []
         \<and> (\<exists>p. map_of planned (scan_oid row) = Some p \<and> p \<noteq> [] \<and> p \<noteq> scan_cid row)
      then misassigned_scans st @ [scan_oid row]
      else misassigned_scans st)"
  by (simp add: reconcile_row_def Let_def split: option.splits)

lemma scan_rows_delivered:
  "delivered_orders (foldl (reconcile_row sp orders planned) st rows) =
     delivered_orders st \<union> {k. k \<noteq> [] \<and> (\<exists>row\<in>set rows. scan_oid row = k)}"
proof (induction rows arbitrary: st)
  case Nil
  then show ?case by simp
next
  case (Cons row rows)
  show ?case
    unfolding foldl_Cons Cons.IH reconcile_row_delivered by auto
qed

lemma scan_rows_misassigned:
  "set (misassigned_scans (foldl (reconcile_row sp orders planned) st rows)) =
     set (misassigned_scans st) \<union>
     {k. k \<noteq> [] \<and> (\<exists>row\<in>set rows. scan_oid row = k
            \<and> (\<exists>p. map_of planned k = Some p \<and> p \<noteq> [] \<and> p \<noteq> scan_cid row))}"
proof (induction rows arbitrary: st)
  case Nil
  then show ?case by simp
next
  case (Cons row rows)
  show ?case
    unfolding foldl_Cons Cons.IH reconcile_row_misassigned by auto
qed

lemma map_of_find:
  "map_of (map (\<lambda>a. (orderId a, courierId a)) xs) k =
     map_option courierId (find (\<lambda>a. orderId a = k) xs)"
  by (induction xs) auto

lemma planned_by_order_last:
  "map_of (planned_by_order asgs) k = map_option courierId (find (\<lambda>a. orderId a = k) (rev asgs))"
  unfolding planned_by_order_def map_of_dict_of_items rev_map map_of_find ..

section \<open>Orders never scanned\<close>

lemma scan_all_delivered:
  "delivered_orders (scan_all sp asgs orders log_rows) =
     {k. k \<noteq> [] \<and> (\<exists>row\<in>set log_rows. scan_oid (normalize_row row) = k)}"
  by (simp add: scan_all_def scan_rows_delivered no_scans_def)

lemma sort_filter_remdups:
  "sort (filter P (remdups xs)) = sorted_list_of_set {x \<in> set xs. P x}"
proof -
  have "sorted_list_of_set {x \<in> set xs. P x} = sorted_list_of_set (set (filter P xs))"
    by simp
  also have "\<dots> = sort (remdups (filter P xs))"
    by (rule sorted_list_of_set_sort_remdups)
  also have "\<dots> = sort (filter P (remdups xs))"
    by (simp add: remdups_filter)
  finally show ?thesis by simp
qed

text \<open>
  Claim C5. The identifiers of a scan row being the normalised ones (upper case, stripped to
  letters, digits and hyphens) and the blank ones being skipped: \<^verbatim>\<open>notDelivered\<close> is the set of
  the known identifiers, that is the non-blank identifiers of the given orders, minus the
  identifiers that appear in a scan row, in ascending lexicographic order without
  repetition; the delivered set is the set of the non-blank identifiers of the scan rows;
  and every known identifier is in exactly one of the delivered set and \<^verbatim>\<open>notDelivered\<close>.
\<close>

theorem reconcile_not_delivered:
  "notDelivered (reconcile sp asgs orders log_rows couriers) =
     sorted_list_of_set
       ({k \<in> orderid ` set orders. k \<noteq> []}
          - {k. \<exists>row\<in>set log_rows. scan_oid (normalize_row row) = k})
   \<and> delivered_orders (scan_all sp asgs orders log_rows) =
       {k. k \<noteq> [] \<and> (\<exists>row\<in>set log_rows. scan_oid (normalize_row row) = k)}
   \<and> (\<forall>k\<in>orderid ` set orders. k \<noteq> [] \<longrightarrow>
         (k \<in> delivered_orders (scan_all sp asgs orders log_rows))
           \<noteq> (k \<in> set (notDelivered (reconcile sp asgs orders log_rows couriers))))"
proof -
  let ?D = "delivered_orders (scan_all sp asgs orders log_rows)"
  let ?known = "{k \<in> orderid ` set orders. k \<noteq> []}"
  have nd: "notDelivered (reconcile sp asgs orders log_rows couriers) =
      sorted_list_of_set {k \<in> ?known. k \<notin> ?D}"
    unfolding reconcile_def Let_def order_ids_def
    by (simp add: sort_filter_remdups)
  have fin: "finite {k \<in> ?known. k \<notin> ?D}" by simp
  have eq: "{k \<in> ?known. k \<notin> ?D}
      = ?known - {k. \<exists>row\<in>set log_rows. scan_oid (normalize_row row) = k}"
    unfolding scan_all_delivered by auto
  have "set (notDelivered (reconcile sp asgs orders log_rows couriers)) = {k \<in> ?known. k \<notin> ?D}"
    unfolding nd using fin by simp
  then have part: "\<forall>k\<in>orderid ` set orders. k \<noteq> [] \<longrightarrow>
         (k \<in> ?D) \<noteq> (k \<in> set (notDelivered (reconcile sp asgs orders log_rows couriers)))"
    by auto
  from nd eq scan_all_delivered part show ?thesis by simp
qed

theorem reconcile_not_delivered_witness:
  "notDelivered (reconcile (map_of ([] :: (string \<times> nat) list))
      [\<lparr>orderId = ''A'', courierId = ''C1''\<rparr>, \<lparr>orderId = ''B'', courierId = ''C1''\<rparr>]
      [\<lparr>orderid = ''A'', city = [], paymenttype = [], producttype = [], weight = PInt 0,
         deadline = ''2025-08-12 10:00'', address = []\<rparr>,
       \<lparr>orderid = ''B'', city = [], paymenttype = [], producttype = [], weight = PInt 0,
         deadline = ''2025-08-12 10:00'', address = []\<rparr>]
      [[(''orderId'', ''a''), (''courierId'', ''C1''), (''deliveredAt'', ''2025-08-12 09:00'')]]
      []) = [''B'']
   \<and> ''A'' \<in> delivered_orders (scan_all (map_of ([] :: (string \<times> nat) list))
      [\<lparr>orderId = ''A'', courierId = ''C1''\<rparr>, \<lparr>orderId = ''B'', courierId = ''C1''\<rparr>]
      [\<lparr>orderid = ''A'', city = [], paymenttype = [], producttype = [], weight = PInt 0,
         deadline = ''2025-08-12 10:00'', address = []\<rparr>,
       \<lparr>orderid = ''B'', city = [], paymenttype = [], producttype = [], weight = PInt 0,
         deadline = ''2025-08-12 10:00'', address = []\<rparr>]
      [[(''orderId'', ''a''), (''courierId'', ''C1''), (''deliveredAt'', ''2025-08-12 09:00'')]])
   \<and> ''B'' \<notin> delivered_orders (scan_all (map_of ([] :: (string \<times> nat) list))
      [\<lparr>orderId = ''A'', courierId = ''C1''\<rparr>, \<lparr>orderId = ''B'', courierId = ''C1''\<rparr>]
      [\<lparr>orderid = ''A'', city = [], paymenttype = [], producttype = [], weight = PInt 0,
         deadline = ''2025-08-12 10:00'', address = []\<rparr>,
       \<lparr>orderid = ''B'', city = [], paymenttype = [], producttype = [], weight = PInt 0,
         deadline = ''2025-08-12 10:00'', address = []\<rparr>]
      [[(''orderId'', ''a''), (''courierId'', ''C1''), (''deliveredAt'', ''2025-08-12 09:00'')]])"
proof -
  let ?sp = "map_of ([] :: (string \<times> nat) list)"
  let ?asgs = "[\<lparr>orderId = ''A'', courierId = ''C1''\<rparr>, \<lparr>orderId = ''B'', courierId = ''C1''\<rparr>]"
  let ?a = "\<lparr>orderid = ''A'', city = [], paymenttype = [], producttype = [], weight = PInt 0,
         deadline = ''2025-08-12 10:00'', address = []\<rparr>"
  let ?b = "\<lparr>orderid = ''B'', city = [], paymenttype = [], producttype = [], weight = PInt 0,
         deadline = ''2025-08-12 10:00'', address = []\<rparr>"
  let ?log = "[[(''orderId'', ''a''), (''courierId'', ''C1''), (''deliveredAt'', ''2025-08-12 09:00'')]]"
  have nd: "notDelivered (reconcile ?sp ?asgs [?a, ?b] ?log []) = [''B'']"
    by code_simp
  note t = reconcile_not_delivered[of ?sp ?asgs "[?a, ?b]" ?log "[]"]
  from t have part: "\<forall>k\<in>orderid ` set [?a, ?b]. k \<noteq> [] \<longrightarrow>
         (k \<in> delivered_orders (scan_all ?sp ?asgs [?a, ?b] ?log))
           \<noteq> (k \<in> set (notDelivered (reconcile ?sp ?asgs [?a, ?b] ?log [])))"
    by (elim conjE)
  have "(''A'' \<in> delivered_orders (scan_all ?sp ?asgs [?a, ?b] ?log)) \<noteq> (''A'' \<in> set [''B''])"
    using part unfolding nd by simp
  then have a: "''A'' \<in> delivered_orders (scan_all ?sp ?asgs [?a, ?b] ?log)" by simp
  have "(''B'' \<in> delivered_orders (scan_all ?sp ?asgs [?a, ?b] ?log)) \<noteq> (''B'' \<in> set [''B''])"
    using part unfolding nd by simp
  then have b: "''B'' \<notin> delivered_orders (scan_all ?sp ?asgs [?a, ?b] ?log)" by simp
  from nd a b show ?thesis by (intro conjI)
qed

section \<open>Scans by another courier than the planned one\<close>

text \<open>
  Claim C6, as the code has it. An identifier is in \<^verbatim>\<open>misassigned\<close> if and only if some scan row
  has it as its non-blank normalised identifier while the plan holds an assignment for it
  (the last one of the list for that identifier) whose courier identifier is not blank and
  differs from the trimmed courier identifier of the row.
\<close>

theorem reconcile_misassigned:
  "k \<in> set (misassigned (reconcile sp asgs orders log_rows couriers)) \<longleftrightarrow>
     (\<exists>row\<in>set log_rows.
         scan_oid (normalize_row row) = k \<and> k \<noteq> []
       \<and> (\<exists>a. find (\<lambda>a. orderId a = k) (rev asgs) = Some a
              \<and> courierId a \<noteq> []
              \<and> courierId a \<noteq> scan_cid (normalize_row row)))"
proof -
  have "set (misassigned (reconcile sp asgs orders log_rows couriers))
      = set (misassigned_scans (scan_all sp asgs orders log_rows))"
    by (simp add: reconcile_def Let_def)
  also have "\<dots> = {k. k \<noteq> [] \<and> (\<exists>row\<in>set (map normalize_row log_rows). scan_oid row = k
            \<and> (\<exists>p. map_of (planned_by_order asgs) k = Some p \<and> p \<noteq> [] \<and> p \<noteq> scan_cid row))}"
    unfolding scan_all_def scan_rows_misassigned by (simp add: no_scans_def)
  finally show ?thesis
    unfolding planned_by_order_last by auto
qed

theorem reconcile_misassigned_witness:
  "misassigned (reconcile (map_of ([] :: (string \<times> nat) list))
      [\<lparr>orderId = ''ORD-001'', courierId = ''Weevo''\<rparr>]
      [\<lparr>orderid = ''ORD-001'', city = [], paymenttype = [], producttype = [], weight = PInt 1,
         deadline = [], address = []\<rparr>]
      [[(''orderId'', ''ord-001''), (''courierId'', ''Bosta''), (''deliveredAt'', [])]]
      []) = [''ORD-001'']
   \<and> (\<exists>row\<in>set [[(''orderId'', ''ord-001''), (''courierId'', ''Bosta''), (''deliveredAt'', [])]].
         scan_oid (normalize_row row) = ''ORD-001''
       \<and> (\<exists>a. find (\<lambda>a. orderId a = ''ORD-001'') (rev [\<lparr>orderId = ''ORD-001'', courierId = ''Weevo''\<rparr>])
                = Some a
              \<and> courierId a \<noteq> scan_cid (normalize_row row)))"
proof -
  let ?sp = "map_of ([] :: (string \<times> nat) list)"
  let ?asgs = "[\<lparr>orderId = ''ORD-001'', courierId = ''Weevo''\<rparr>]"
  let ?os = "[\<lparr>orderid = ''ORD-001'', city = [], paymenttype = [], producttype = [], weight = PInt 1,
         deadline = [], address = []\<rparr>]"
  let ?log = "[[(''orderId'', ''ord-001''), (''courierId'', ''Bosta''), (''deliveredAt'', [])]]"
  have m: "misassigned (reconcile ?sp ?asgs ?os ?log []) = [''ORD-001'']"
    by code_simp
  then have "''ORD-001'' \<in> set (misassigned (reconcile ?sp ?asgs ?os ?log []))" by simp
  then have "\<exists>row\<in>set ?log.
         scan_oid (normalize_row row) = ''ORD-001'' \<and> ''ORD-001'' \<noteq> []
       \<and> (\<exists>a. find (\<lambda>a. orderId a = ''ORD-001'') (rev ?asgs) = Some a
              \<and> courierId a \<noteq> []
              \<and> courierId a \<noteq> scan_cid (normalize_row row))"
    by (simp only: reconcile_misassigned)
  then have "\<exists>row\<in>set ?log.
         scan_oid (normalize_row row) = ''ORD-001''
       \<and> (\<exists>a. find (\<lambda>a. orderId a = ''ORD-001'') (rev ?asgs) = Some a
              \<and> courierId a \<noteq> scan_cid (normalize_row row))"
    by blast
  with m show ?thesis by (rule conjI)
qed

text \<open>
  The claim as the specification words it fails where the planned courier identifier is
  blank, which the code reads as no plan, and where the courier identifier of the row
  differs from the planned one by surrounding white space only, which the code trims
  before it compares.
\<close>

theorem reconcile_misassigned_counterexample:
  "find (\<lambda>a. orderId a = ''A'') [\<lparr>orderId = ''A'', courierId = []\<rparr>]
     = Some \<lparr>orderId = ''A'', courierId = []\<rparr>
   \<and> row_get (normalize_row [(''orderId'', ''A''), (''courierId'', ''Bosta'')]) ''courierid''
     = ''Bosta''
   \<and> misassigned (reconcile (map_of ([] :: (string \<times> nat) list))
        [\<lparr>orderId = ''A'', courierId = []\<rparr>]
        [\<lparr>orderid = ''A'', city = [], paymenttype = [], producttype = [], weight = PInt 1,
           deadline = [], address = []\<rparr>]
        [[(''orderId'', ''A''), (''courierId'', ''Bosta'')]]
        []) = []
   \<and> row_get (normalize_row [(''orderId'', ''B''), (''courierId'', '' Weevo '')]) ''courierid''
     = '' Weevo ''
   \<and> misassigned (reconcile (map_of ([] :: (string \<times> nat) list))
        [\<lparr>orderId = ''B'', courierId = ''Weevo''\<rparr>]
        [\<lparr>orderid = ''B'', city = [], paymenttype = [], producttype = [], weight = PInt 1,
           deadline = [], address = []\<rparr>]
        [[(''orderId'', ''B''), (''courierId'', '' Weevo '')]]
        []) = []"
  by code_simp

section \<open>A weight that is not a number\<close>

lemma plan_step_raises:
  "order_weight pf ordr = Inl e \<Longrightarrow> plan_step pf cs st ordr = Inl e"
  by (simp add: plan_step_chain py_bind_def)

text \<open>
  Claim C1 fails on the code. An order whose weight is the string \<^verbatim>\<open>heavy\<close>, which \<^verbatim>\<open>float\<close>
  rejects, passes normalisation and de-duplication unchanged and makes the planner raise
  \<^verbatim>\<open>ValueError\<close>, whatever the roster, the zone table and the scan log: the run emits nothing.
\<close>

theorem main_core_weight_raises:
  assumes "str_float ''heavy'' = None"
  shows "main_core str_float strptime
      (PList [PDict [(''orderId'', PStr ''A1''), (''weight'', PStr ''heavy'')]])
      couriers zones_map log_rows = Inl ValueError"
proof -
  let ?raw = "PList [PDict [(''orderId'', PStr ''A1''), (''weight'', PStr ''heavy'')]]"
  let ?n = "\<lparr>orderid = ''A1'', city = (case zones_map [] of None \<Rightarrow> [] | Some z \<Rightarrow> z),
             paymenttype = [], producttype = [], weight = PStr ''heavy'',
             deadline = [], address = []\<rparr>"
  have keys: "normalize_keys ?raw
      = PList [PDict [(''orderid'', PStr ''A1''), (''weight'', PStr ''heavy'')]]"
    by code_simp
  have s1: "strip ''A1'' = ''A1''" by code_simp
  have s0: "strip [] = []" by (simp add: strip_def)
  have l0: "lower [] = []" by (simp add: lower_def)
  have norm: "normalize_orders ?raw zones_map = Inr [?n]"
    unfolding normalize_orders_def keys
    by (simp add: py_bind_def dict_get_def dict_get_default_def py_or_def s1 s0 l0)
  have clean: "dedup [?n] = ([?n], [])"
    by (simp add: dedup_def)
  have "order_weight str_float ?n = Inl ValueError"
    using assms by (simp add: order_weight_def py_or_def)
  then have "plan_step str_float (sort_key priority_key couriers) (initial_plan couriers) ?n
      = Inl ValueError"
    by (rule plan_step_raises)
  then have "plan_assignments str_float [?n] couriers = Inl ValueError"
    by (simp add: plan_assignments_def py_bind_def)
  then show ?thesis
    unfolding main_core_def norm by (simp add: py_bind_def clean)
qed

theorem main_core_weight_raises_witness:
  "map_of ([] :: (string \<times> real) list) ''heavy'' = None
   \<and> main_core (map_of []) (map_of ([] :: (string \<times> nat) list))
      (PList [PDict [(''orderId'', PStr ''A1''), (''weight'', PStr ''heavy'')]])
      [\<lparr>courierid = ''C1'', zonescovered = Some [''Giza''], acceptscod = Some True,
         dailycapacity = Some 10, priority = Some 1, exclusions = Some []\<rparr>]
      (map_of [(''giza'', ''Giza'')]) [] = Inl ValueError"
proof -
  have h: "map_of ([] :: (string \<times> real) list) ''heavy'' = None" by simp
  from h main_core_weight_raises[of "map_of []", OF h] show ?thesis by (rule conjI)
qed

end
